theory Spec2Isabelle
  imports Complex_Main "HOL-Library.Word"
begin

unbundle bit_operations_syntax

section \<open>The two-wire bus as the test programs see it\<close>

text \<open>
  All programs talk to the sensor through \<^verbatim>\<open>i2c.Tx(addr, w, r)\<close>, always with either
  a write buffer or a read buffer, never both.  The bus is modelled as explicit state:
  \<^item> \<open>device\<close> answers the n-th transaction: \<open>Nack\<close> is a bus error (a non-nil
    \<^verbatim>\<open>err\<close>; a read buffer then stays as \<^verbatim>\<open>make\<close> left it, all zero), \<open>Ack d\<close> is
    success, with \<open>d\<close> the bytes the device puts on the wire when the transaction is a
    read (zero-filled up to the requested size);
  \<^item> \<open>txs\<close> counts the transactions made so far;
  \<^item> \<open>trace\<close> records, in order, every bus write, every bus read (with the number of
    bytes requested), every \<^verbatim>\<open>time.Sleep\<close> (in milliseconds) and the console
    lines listed in \<open>console\<close>, which print what a program took from a packet.
  Other console output is not modelled.
\<close>

type_synonym byte = "8 word"

datatype reply = Nack | Ack "byte list"

datatype console =
    Report int "16 word" byte
  | ReportDetail byte byte byte
  | ControlResponse byte
  | ResponseID byte
  | FullPacket "byte list"
  | PayloadByte byte
  | SensorChannel
  | FirstBytes "byte list"
  | NormalChannel byte
  | ChannelLine byte "byte list"
  | WakeChannelLine byte "byte list"
  | VersionLine "byte list"

datatype event = Write "byte list" | Read nat | Sleep nat | Out console

datatype i2c_error = I2CError

datatype panic = IndexOutOfRange | SliceOutOfRange

record bus =
  device :: "nat \<Rightarrow> reply"
  txs :: nat
  trace :: "event list"

definition tx_write :: "byte list \<Rightarrow> bus \<Rightarrow> i2c_error option \<times> bus" where
  "tx_write w b =
     (let b' = b\<lparr>txs := Suc (txs b), trace := trace b @ [Write w]\<rparr>
      in case device b (txs b) of Nack \<Rightarrow> (Some I2CError, b') | Ack d \<Rightarrow> (None, b'))"

definition tx_read :: "nat \<Rightarrow> bus \<Rightarrow> (i2c_error option \<times> byte list) \<times> bus" where
  "tx_read n b =
     (let b' = b\<lparr>txs := Suc (txs b), trace := trace b @ [Read n]\<rparr>
      in case device b (txs b) of
           Nack \<Rightarrow> ((Some I2CError, replicate n 0), b')
         | Ack d \<Rightarrow> ((None, take n (d @ replicate n 0)), b'))"

definition sleep :: "nat \<Rightarrow> bus \<Rightarrow> bus" where
  "sleep ms b = b\<lparr>trace := trace b @ [Sleep ms]\<rparr>"

definition println :: "console \<Rightarrow> bus \<Rightarrow> bus" where
  "println out b = b\<lparr>trace := trace b @ [Out out]\<rparr>"

text \<open>The bus writes of a trace, in order.\<close>

fun writes :: "event list \<Rightarrow> byte list list" where
  "writes [] = []"
| "writes (Write w # es) = w # writes es"
| "writes (e # es) = writes es"

text \<open>The sizes of the bus reads of a trace, in order.\<close>

fun reads :: "event list \<Rightarrow> nat list" where
  "reads [] = []"
| "reads (Read n # es) = n # reads es"
| "reads (e # es) = reads es"

text \<open>The console lines of a trace, in order.\<close>

fun outputs :: "event list \<Rightarrow> console list" where
  "outputs [] = []"
| "outputs (Out out # es) = out # outputs es"
| "outputs (e # es) = outputs es"

section \<open>Byte order helpers (encoding/binary)\<close>

text \<open>\<^verbatim>\<open>binary.LittleEndian.Uint16(b[0:2])\<close> and \<^verbatim>\<open>PutUint16\<close>.\<close>

definition uint16le :: "byte list \<Rightarrow> 16 word" where
  "uint16le h = ucast (h ! 0) OR push_bit 8 (ucast (h ! 1))"

definition putUint16 :: "16 word \<Rightarrow> byte list" where
  "putUint16 v = [ucast v, ucast (drop_bit 8 v)]"

text \<open>\<^verbatim>\<open>copy(dst[off:], src)\<close>: copies as many bytes as fit.\<close>

definition copy_at :: "nat \<Rightarrow> byte list \<Rightarrow> byte list \<Rightarrow> byte list" where
  "copy_at off src dst =
     take off dst @ take (length dst - off) src @ drop (off + length src) dst"

section \<open>sendOnChannel (comprehensive test and channel debug, identical text)\<close>

text \<open>
  \<^verbatim>\<open>seq *[6]uint8\<close> is a list of six bytes; indexing it with a channel of 6 or more
  panics before anything is written.
\<close>

type_synonym seqtab = "byte list"

definition sendOnChannel ::
  "seqtab \<Rightarrow> byte \<Rightarrow> byte list \<Rightarrow> bus \<Rightarrow> panic + (seqtab \<times> bus)" where
  "sendOnChannel seq channel payload b =
     (let frameLen = 4 + length payload;
          frame0 = replicate frameLen (0 :: byte);
          frame1 = copy_at 0 (putUint16 (of_nat frameLen)) frame0;
          frame2 = frame1[2 := channel]
      in if unat channel < length seq
         then let frame3 = frame2[3 := seq ! unat channel];
                  seq' = seq[unat channel := seq ! unat channel + 1];
                  frame = copy_at 4 payload frame3
              in Inr (seq', snd (tx_write frame b))
         else Inl IndexOutOfRange)"

text \<open>Slice indexing and slicing panic when out of range; the model checks against the
  length (Go checks a slice expression against the capacity, which is never smaller).\<close>

definition index :: "'a list \<Rightarrow> int \<Rightarrow> panic + 'a" where
  "index xs i = (if 0 \<le> i \<and> i < int (length xs) then Inr (xs ! nat i) else Inl IndexOutOfRange)"

definition slice :: "'a list \<Rightarrow> int \<Rightarrow> int \<Rightarrow> panic + 'a list" where
  "slice xs lo hi =
     (if 0 \<le> lo \<and> lo \<le> hi \<and> hi \<le> int (length xs)
      then Inr (take (nat (hi - lo)) (drop (nat lo) xs)) else Inl SliceOutOfRange)"

section \<open>The comprehensive test (src/comprehensive_test/main.go)\<close>

definition softReset :: "byte list" where
  "softReset = [5, 0, 1, 0, 1]"

definition initCmd :: "byte list" where
  "initCmd = [0xF2, 0, 0x04, 0x01, 0, 0, 0, 0, 0, 0, 0, 0, 0]"

definition prodIDReq :: "byte list" where
  "prodIDReq = [0xF9, 0x00]"

definition setFeature :: "byte list" where
  "setFeature = [0xFD, 0x08, 0x00, 0x00, 0x00, 0x10, 0x27, 0x00, 0x00,
                 0x00, 0x00, 0x00, 0x00, 0x00, 0x00, 0x00, 0x00]"

text \<open>The locals of \<^verbatim>\<open>main\<close> that outlive a statement, and the bus.\<close>

record comp_state =
  c_seq :: seqtab
  c_err :: "i2c_error option"
  c_reportCount :: int
  c_i2c :: bus

definition nap :: "nat \<Rightarrow> comp_state \<Rightarrow> comp_state" where
  "nap ms st = st\<lparr>c_i2c := sleep ms (c_i2c st)\<rparr>"

definition say :: "console \<Rightarrow> comp_state \<Rightarrow> comp_state" where
  "say out st = st\<lparr>c_i2c := println out (c_i2c st)\<rparr>"

text \<open>Step 1: the soft reset, retried (lines 27-35).\<close>

function comp_softReset :: "int \<Rightarrow> comp_state \<Rightarrow> comp_state" where
  "comp_softReset attempt st =
     (if attempt < 5
      then (let (e, b1) = tx_write softReset (c_i2c st);
                st1 = st\<lparr>c_err := e, c_i2c := b1\<rparr>
            in if e = None then st1
               else comp_softReset (attempt + 1) (nap 30 st1))
      else st)"
  by pat_completeness auto
termination
  by (relation "measure (\<lambda>(attempt, st). nat (5 - attempt))") auto

declare comp_softReset.simps [simp del]

text \<open>Step 2: drain the advertisement (lines 41-54).  The error of a read is ignored.\<close>

function comp_readAdvert :: "int \<Rightarrow> comp_state \<Rightarrow> comp_state" where
  "comp_readAdvert i st =
     (if i < 10
      then (let ((e, header), b1) = tx_read 4 (c_i2c st);
                st1 = st\<lparr>c_i2c := b1\<rparr>;
                length = uint16le header
            in if 0 < length \<and> length < 1000 \<and> length AND 0x8000 = 0
               then (if 4 < length
                     then st1\<lparr>c_i2c := snd (tx_read (unat (length - 4)) b1)\<rparr>
                     else st1)
               else comp_readAdvert (i + 1) (nap 50 st1))
      else st)"
  by pat_completeness auto
termination
  by (relation "measure (\<lambda>(i, st). nat (10 - i))") auto

declare comp_readAdvert.simps [simp del]

text \<open>Step 3: drain the responses to Initialize (lines 64-68).\<close>

function comp_drain :: "int \<Rightarrow> comp_state \<Rightarrow> comp_state" where
  "comp_drain i st =
     (if i < 5
      then comp_drain (i + 1) (nap 20 (st\<lparr>c_i2c := snd (tx_read 4 (c_i2c st))\<rparr>))
      else st)"
  by pat_completeness auto
termination
  by (relation "measure (\<lambda>(i, st). nat (5 - i))") auto

declare comp_drain.simps [simp del]

text \<open>Step 4: read the product ID response (lines 79-94): the body of the loop up to
  the final sleep, then the loop.\<close>

definition comp_prodIDOnce :: "comp_state \<Rightarrow> comp_state" where
  "comp_prodIDOnce st =
     (let ((e, header), b1) = tx_read 4 (c_i2c st);
          st1 = st\<lparr>c_i2c := b1\<rparr>;
          length = uint16le header
      in if 0 < length \<and> length < 1000 \<and> length AND 0x8000 = 0
         then (if 4 < length
               then (let ((e', payload), b2) = tx_read (unat (length - 4)) b1;
                         st' = st1\<lparr>c_i2c := b2\<rparr>
                     in if 0 < List.length payload
                        then say (ResponseID (payload ! 0)) st' else st')
               else st1)
         else st1)"

function comp_readProdID :: "int \<Rightarrow> comp_state \<Rightarrow> comp_state" where
  "comp_readProdID i st =
     (if i < 10
      then comp_readProdID (i + 1) (nap 20 (comp_prodIDOnce st))
      else st)"
  by pat_completeness auto
termination
  by (relation "measure (\<lambda>(i, st). nat (10 - i))") auto

declare comp_readProdID.simps [simp del]

text \<open>Steps 1 to 5 in order (lines 23-113).  \<^verbatim>\<open>sendOnChannel\<close> can panic, so the result
  is a sum.\<close>

definition send :: "byte \<Rightarrow> byte list \<Rightarrow> comp_state \<Rightarrow> panic + comp_state" where
  "send channel payload st =
     (case sendOnChannel (c_seq st) channel payload (c_i2c st) of
        Inl p \<Rightarrow> Inl p
      | Inr (seq', b') \<Rightarrow> Inr (st\<lparr>c_seq := seq', c_i2c := b'\<rparr>))"

definition comp_init :: "bus \<Rightarrow> comp_state" where
  "comp_init b = \<lparr>c_seq = [0, 0, 0, 0, 0, 0], c_err = None, c_reportCount = 0, c_i2c = b\<rparr>"

definition comp_step3 :: "comp_state \<Rightarrow> panic + comp_state" where
  "comp_step3 st =
     (case send 2 initCmd st of
        Inl p \<Rightarrow> Inl p
      | Inr st1 \<Rightarrow> Inr (comp_drain 0 (nap 100 st1)))"

definition comp_step4 :: "comp_state \<Rightarrow> panic + comp_state" where
  "comp_step4 st =
     (case send 2 prodIDReq st of
        Inl p \<Rightarrow> Inl p
      | Inr st1 \<Rightarrow> Inr (comp_readProdID 0 (nap 100 st1)))"

definition comp_step5 :: "comp_state \<Rightarrow> panic + comp_state" where
  "comp_step5 st =
     (case send 2 setFeature st of
        Inl p \<Rightarrow> Inl p
      | Inr st1 \<Rightarrow> Inr (nap 100 st1))"

definition comp_setup :: "bus \<Rightarrow> panic + comp_state" where
  "comp_setup b =
     (let st1 = nap 300 (comp_softReset 0 (comp_init b));
          st2 = comp_readAdvert 0 st1
      in case comp_step3 st2 of
           Inl p \<Rightarrow> Inl p
         | Inr st3 \<Rightarrow> comp_step4 st3)"

definition comp_upto_step5 :: "bus \<Rightarrow> panic + comp_state" where
  "comp_upto_step5 b =
     (case comp_setup b of Inl p \<Rightarrow> Inl p | Inr st4 \<Rightarrow> comp_step5 st4)"

text \<open>Step 6: one iteration of the polling loop (lines 120-169).\<close>

definition comp_pollOnce :: "comp_state \<Rightarrow> panic + comp_state" where
  "comp_pollOnce st =
     (let ((e, header), b1) = tx_read 4 (c_i2c st);
          st1 = st\<lparr>c_err := e, c_i2c := b1\<rparr>
      in if e \<noteq> None then Inr (nap 10 st1)
         else let length = uint16le header
              in if length AND 0x8000 \<noteq> 0 then Inr (nap 10 st1)
                 else if length = 0 then Inr (nap 10 st1)
                 else let length = length AND NOT 0x8000
                      in if 0 < length \<and> length < 500
                         then (let ((e', fullPacket), b2) = tx_read (unat length) b1;
                                   st2 = st1\<lparr>c_err := e', c_i2c := b2\<rparr>
                               in if e' \<noteq> None then Inr (nap 10 st2)
                                  else (case index fullPacket 2 of
                                    Inl p \<Rightarrow> Inl p
                                  | Inr channel \<Rightarrow>
                                     (if channel = 3 \<or> channel = 4 \<or> channel = 5
                                      then (let st3 = st2\<lparr>c_reportCount := c_reportCount st2 + 1\<rparr>;
                                                st4 = say (Report (c_reportCount st3) length channel) st3
                                            in if 4 < length
                                               then (case index fullPacket 4 of
                                                       Inl p \<Rightarrow> Inl p
                                                     | Inr sid \<Rightarrow>
                                                  (case index fullPacket 5 of
                                                       Inl p \<Rightarrow> Inl p
                                                     | Inr sq \<Rightarrow>
                                                  (case index fullPacket 6 of
                                                       Inl p \<Rightarrow> Inl p
                                                     | Inr status \<Rightarrow>
                                                         Inr (nap 10 (say (ReportDetail sid sq status) st4)))))
                                               else Inr (nap 10 st4))
                                      else if channel = 2
                                      then (if 4 < length
                                            then (case index fullPacket 4 of
                                                    Inl p \<Rightarrow> Inl p
                                                  | Inr rid \<Rightarrow>
                                                      Inr (nap 10 (say (ControlResponse rid) st2)))
                                            else Inr (nap 10 st2))
                                      else Inr (nap 10 st2))))
                         else Inr (nap 10 st1))"

function comp_pollLoop :: "int \<Rightarrow> comp_state \<Rightarrow> panic + comp_state" where
  "comp_pollLoop i st =
     (if i < 100
      then (case comp_pollOnce st of
              Inl p \<Rightarrow> Inl p
            | Inr st' \<Rightarrow> comp_pollLoop (i + 1) st')
      else Inr st)"
  by pat_completeness auto
termination
  by (relation "measure (\<lambda>(i, st). nat (100 - i))") auto

declare comp_pollLoop.simps [simp del]

definition comp_main :: "bus \<Rightarrow> panic + comp_state" where
  "comp_main b =
     (case comp_upto_step5 b of Inl p \<Rightarrow> Inl p | Inr st5 \<Rightarrow> comp_pollLoop 0 st5)"

text \<open>The frames the program has written when step 5 is done.\<close>

definition comp_frames :: "bus \<Rightarrow> panic + byte list list" where
  "comp_frames b =
     (case comp_upto_step5 b of Inl p \<Rightarrow> Inl p | Inr st \<Rightarrow> Inr (writes (trace (c_i2c st))))"

section \<open>The hybrid test (src/hybrid_test/main.go)\<close>

text \<open>The driver owns the sequence counters here; the raw polling loop has only these
  locals.  \<^verbatim>\<open>channelCounts\<close> is a Go map (a missing key reads as 0).\<close>

record hyb_state =
  h_err :: "i2c_error option"
  h_reportCount :: int
  channelCounts :: "byte \<rightharpoonup> int"
  h_i2c :: bus

definition h_nap :: "nat \<Rightarrow> hyb_state \<Rightarrow> hyb_state" where
  "h_nap ms st = st\<lparr>h_i2c := sleep ms (h_i2c st)\<rparr>"

definition h_say :: "console \<Rightarrow> hyb_state \<Rightarrow> hyb_state" where
  "h_say out st = st\<lparr>h_i2c := println out (h_i2c st)\<rparr>"

definition bump :: "byte \<Rightarrow> (byte \<rightharpoonup> int) \<Rightarrow> (byte \<rightharpoonup> int)" where
  "bump k m = m(k \<mapsto> (case m k of None \<Rightarrow> 0 | Some c \<Rightarrow> c) + 1)"

text \<open>The locals when the loop is entered.\<close>

definition hyb_init :: "bus \<Rightarrow> hyb_state" where
  "hyb_init b = \<lparr>h_err = None, h_reportCount = 0, channelCounts = Map.empty, h_i2c = b\<rparr>"

text \<open>One iteration of the polling loop (lines 52-103).\<close>

definition hyb_pollOnce :: "hyb_state \<Rightarrow> panic + hyb_state" where
  "hyb_pollOnce st =
     (let ((e, header), b1) = tx_read 4 (h_i2c st);
          st1 = st\<lparr>h_err := e, h_i2c := b1\<rparr>
      in if e \<noteq> None then Inr (h_nap 10 st1)
         else let length = uint16le header
              in if length AND 0x8000 \<noteq> 0 then Inr (h_nap 10 st1)
                 else if length = 0 then Inr (h_nap 10 st1)
                 else let length = length AND 0x7FFF
                      in if 4 < length \<and> length < 500
                         then (let ((e', packet), b2) = tx_read (unat length) b1;
                                   st2 = st1\<lparr>h_err := e', h_i2c := b2\<rparr>
                               in if e' \<noteq> None then Inr (h_nap 10 st2)
                                  else (case index packet 2 of
                                    Inl p \<Rightarrow> Inl p
                                  | Inr channel \<Rightarrow>
                                     (let st3 = st2\<lparr>channelCounts := bump channel (channelCounts st2)\<rparr>
                                      in if channel = 3 \<or> channel = 4 \<or> channel = 5
                                         then (let st4 = st3\<lparr>h_reportCount := h_reportCount st3 + 1\<rparr>;
                                                   st5 = h_say (Report (h_reportCount st4) length channel) st4
                                               in if 4 < length
                                                  then (case slice packet 4 (min (uint length) 12) of
                                                          Inl p \<Rightarrow> Inl p
                                                        | Inr bs \<Rightarrow> Inr (h_nap 10 (h_say (FirstBytes bs) st5)))
                                                  else Inr (h_nap 10 st5))
                                         else Inr (h_nap 10 st3))))
                         else Inr (h_nap 10 st1))"

section \<open>The minimal I2C test (src/i2c_test/main.go)\<close>

text \<open>One attempt of the header loop (lines 44-70).\<close>

definition i2c_attempt :: "bus \<Rightarrow> panic + bus" where
  "i2c_attempt b =
     (let ((e, header), b1) = tx_read 4 b
      in if e \<noteq> None then Inr (sleep 100 b1)
         else let length = uint16le header
              in if 0 < length \<and> length < 1000
                 then (let packet0 = replicate (unat length) (0 :: byte)
                       in case slice packet0 0 4 of
                            Inl p \<Rightarrow> Inl p
                          | Inr dst \<Rightarrow>
                             (let packet1 = copy_at 0 header dst @ drop 4 packet0
                              in if 4 < length
                                 then (let ((e', remaining), b2) = tx_read (unat (length - 4)) b1
                                       in if e' = None
                                          then (let packet2 = copy_at 4 remaining packet1
                                                in Inr (sleep 100 (println
                                                     (FullPacket (take (min (unat length) 20) packet2)) b2)))
                                          else Inr (sleep 100 b2))
                                 else Inr (sleep 100 b1)))
                 else Inr (sleep 100 b1))"

function i2c_loop :: "int \<Rightarrow> bus \<Rightarrow> panic + bus" where
  "i2c_loop i b =
     (if i < 10
      then (case i2c_attempt b of Inl p \<Rightarrow> Inl p | Inr b' \<Rightarrow> i2c_loop (i + 1) b')
      else Inr b)"
  by pat_completeness auto
termination
  by (relation "measure (\<lambda>(i, b). nat (10 - i))") auto

declare i2c_loop.simps [simp del]

text \<open>\<^verbatim>\<open>main\<close>: the soft reset is written once, and the program returns when that
  write fails (lines 32-39).\<close>

definition i2c_main :: "bus \<Rightarrow> panic + bus" where
  "i2c_main b =
     (let (e, b1) = tx_write softReset b
      in if e \<noteq> None then Inr b1
         else i2c_loop 0 (sleep 500 b1))"

section \<open>The SetFeature test (src/setfeature_test/main.go)\<close>

text \<open>\<^verbatim>\<open>parseAdvertisement\<close> (lines 181-216).  \<^verbatim>\<open>i\<close> and \<^verbatim>\<open>length\<close> are Go
  \<^verbatim>\<open>int\<close>s; they stay below \<open>len(payload) + 256\<close>, far from the range of a 32-bit
  \<^verbatim>\<open>int\<close> for any slice these targets can hold, so they are modelled as integers.
  \<open>out\<close> collects the printed lines.\<close>

function parse_loop :: "byte list \<Rightarrow> int \<Rightarrow> console list \<Rightarrow> panic + console list" where
  "parse_loop payload i out =
     (if i < int (length payload) - 2
      then (case index payload i of
              Inl p \<Rightarrow> Inl p
            | Inr tag \<Rightarrow>
          (case index payload (i + 1) of
              Inl p \<Rightarrow> Inl p
            | Inr lb \<Rightarrow>
             (let len = uint lb; i1 = i + 2
              in if i1 + len > int (length payload) then Inr out
                 else (case slice payload i1 (i1 + len) of
                         Inl p \<Rightarrow> Inl p
                       | Inr val \<Rightarrow>
                          (let i2 = i1 + len
                           in if tag = 6
                              then (if len > 1
                                    then (case index val 0 of
                                            Inl p \<Rightarrow> Inl p
                                          | Inr chanNum \<Rightarrow>
                                        (case slice val 1 (int (length val)) of
                                            Inl p \<Rightarrow> Inl p
                                          | Inr name \<Rightarrow>
                                              parse_loop payload i2 (out @ [ChannelLine chanNum name])))
                                    else parse_loop payload i2 out)
                              else if tag = 7
                              then (if len > 1
                                    then (case index val 0 of
                                            Inl p \<Rightarrow> Inl p
                                          | Inr chanNum \<Rightarrow>
                                        (case slice val 1 (int (length val)) of
                                            Inl p \<Rightarrow> Inl p
                                          | Inr name \<Rightarrow>
                                              parse_loop payload i2 (out @ [WakeChannelLine chanNum name])))
                                    else parse_loop payload i2 out)
                              else if tag = 0x80
                              then parse_loop payload i2 (out @ [VersionLine val])
                              else parse_loop payload i2 out)))))
      else Inr out)"
  by pat_completeness auto
termination
  by (relation "measure (\<lambda>(payload, i, out). nat (int (length payload) - i))")
     (auto simp: index_def slice_def less_le_trans [OF _ uint_ge_0] split: if_splits)

declare parse_loop.simps [simp del]

definition parseAdvertisement :: "byte list \<Rightarrow> panic + console list" where
  "parseAdvertisement payload = parse_loop payload 0 []"

text \<open>The drain loop that finds the advertisement (lines 39-73).  A header is always
  four bytes long.\<close>

definition sf_drainOnce :: "bus \<Rightarrow> panic + bus" where
  "sf_drainOnce b =
     (let ((e, header), b1) = tx_read 4 b;
          length = uint16le header;
          channel = header ! 2
      in if 0 < length \<and> length < 1000 \<and> length AND 0x8000 = 0
         then (if channel = 0 \<and> 4 < length
               then (let ((e', payload), b2) = tx_read (unat (length - 4)) b1
                     in if e' = None
                        then (case parseAdvertisement payload of
                                Inl p \<Rightarrow> Inl p
                              | Inr lines \<Rightarrow>
                                  Inr (sleep 50 (b2\<lparr>trace := trace b2 @ map Out lines\<rparr>)))
                        else Inr (sleep 50 b2))
               else Inr (sleep 50 b1))
         else Inr (sleep 50 b1))"

function sf_drain :: "int \<Rightarrow> bus \<Rightarrow> panic + bus" where
  "sf_drain i b =
     (if i < 5
      then (case sf_drainOnce b of Inl p \<Rightarrow> Inl p | Inr b' \<Rightarrow> sf_drain (i + 1) b')
      else Inr b)"
  by pat_completeness auto
termination
  by (relation "measure (\<lambda>(i, b). nat (5 - i))") auto

declare sf_drain.simps [simp del]

text \<open>The Initialize frame, built in place (lines 78-90).\<close>

definition sf_initPayload :: "byte list" where
  "sf_initPayload = [0xF2, 0x00, 0x04, 0x01,
                     0x00, 0x00, 0x00, 0x00, 0x00, 0x00, 0x00, 0x00, 0x00]"

definition sf_initFrame :: "byte list" where
  "sf_initFrame =
     (let initFrameLen = 4 + length sf_initPayload;
          f0 = replicate initFrameLen (0 :: byte);
          f1 = copy_at 0 (putUint16 (of_nat initFrameLen)) f0;
          f2 = f1[2 := 2];
          f3 = f2[3 := 0]
      in copy_at 4 sf_initPayload f3)"

text \<open>The SetFeature frame for the accelerometer (lines 106-122).\<close>

definition sf_payload :: "byte list" where
  "sf_payload = [0xFD, 0x01, 0x00, 0x00, 0x00, 0x10, 0x27, 0x00, 0x00,
                 0x00, 0x00, 0x00, 0x00, 0x00, 0x00, 0x00, 0x00]"

definition sf_frame :: "byte list" where
  "sf_frame =
     (let frameLen = 4 + length sf_payload;
          f0 = replicate frameLen (0 :: byte);
          f1 = copy_at 0 (putUint16 (of_nat frameLen)) f0;
          f2 = f1[2 := 2];
          f3 = f2[3 := 0]
      in copy_at 4 sf_payload f3)"

text \<open>One iteration of the polling loop (lines 138-175).\<close>

definition sf_pollOnce :: "bus \<Rightarrow> panic + bus" where
  "sf_pollOnce b =
     (let ((e, header), b1) = tx_read 4 b
      in if e \<noteq> None then Inr (sleep 100 b1)
         else let length = uint16le header;
                  channel = header ! 2
              in if length AND 0x8000 \<noteq> 0 then Inr (sleep 100 b1)
                 else if 0 < length \<and> length < 1000
                 then (if 4 < length
                       then (let ((e', remaining), b2) = tx_read (unat (length - 4)) b1
                             in if e' = None
                                then (case index remaining 0 of
                                        Inl p \<Rightarrow> Inl p
                                      | Inr r0 \<Rightarrow>
                                         (let b3 = println (PayloadByte r0) b2;
                                              b4 = (if channel = 3 \<or> channel = 4 \<or> channel = 5
                                                    then println SensorChannel b3 else b3)
                                          in Inr (sleep 100 b4)))
                                else Inr (sleep 100 b2))
                       else Inr (sleep 100 b1))
                 else Inr (sleep 100 b1))"

function sf_poll :: "int \<Rightarrow> bus \<Rightarrow> panic + bus" where
  "sf_poll i b =
     (if i < 30
      then (case sf_pollOnce b of Inl p \<Rightarrow> Inl p | Inr b' \<Rightarrow> sf_poll (i + 1) b')
      else Inr b)"
  by pat_completeness auto
termination
  by (relation "measure (\<lambda>(i, b). nat (30 - i))") auto

declare sf_poll.simps [simp del]

text \<open>\<^verbatim>\<open>main\<close>: every failed write ends the program.\<close>

definition sf_main :: "bus \<Rightarrow> panic + bus" where
  "sf_main b =
     (let (e, b1) = tx_write softReset b
      in if e \<noteq> None then Inr b1
         else (case sf_drain 0 (sleep 500 b1) of
                 Inl p \<Rightarrow> Inl p
               | Inr b2 \<Rightarrow>
                  (let (e, b3) = tx_write sf_initFrame b2
                   in if e \<noteq> None then Inr b3
                      else let (e, b4) = tx_write sf_frame (sleep 200 b3)
                           in if e \<noteq> None then Inr b4
                              else sf_poll 0 (sleep 100 b4))))"

section \<open>The channel debug program (src/unnamed/part_002)\<close>

text \<open>The tag loop over the advertisement (lines 55-80).  \<open>channels\<close> is the Go map from
  names to channel numbers.\<close>

function chdbg_parse ::
  "byte list \<Rightarrow> int \<Rightarrow> int \<Rightarrow> byte \<Rightarrow> (byte list \<rightharpoonup> byte) \<Rightarrow> console list
   \<Rightarrow> panic + ((byte list \<rightharpoonup> byte) \<times> console list)" where
  "chdbg_parse advert advertLen cursor currentChan channels out =
     (if cursor < advertLen
      then (if cursor + 1 \<ge> advertLen then Inr (channels, out)
            else (case index advert cursor of
                    Inl p \<Rightarrow> Inl p
                  | Inr tag \<Rightarrow>
                (case index advert (cursor + 1) of
                    Inl p \<Rightarrow> Inl p
                  | Inr len \<Rightarrow>
                   (let cursor1 = cursor + 2
                    in if cursor1 + uint len > advertLen then Inr (channels, out)
                       else (case (if tag = 4 \<and> len = 1
                                   then (case index advert cursor1 of
                                           Inl p \<Rightarrow> Inl p
                                         | Inr c \<Rightarrow> Inr (c, out @ [NormalChannel c]))
                                   else Inr (currentChan, out)) of
                               Inl p \<Rightarrow> Inl p
                             | Inr (currentChan1, out1) \<Rightarrow>
                            (case (if tag = 8 \<and> len > 0 \<and> currentChan1 > 0
                                   then (case slice advert cursor1 (cursor1 + uint len) of
                                           Inl p \<Rightarrow> Inl p
                                         | Inr name \<Rightarrow>
                                             Inr (channels(name \<mapsto> currentChan1),
                                                  out1 @ [ChannelLine currentChan1 name]))
                                   else Inr (channels, out1)) of
                               Inl p \<Rightarrow> Inl p
                             | Inr (channels1, out2) \<Rightarrow>
                                 chdbg_parse advert advertLen (cursor1 + uint len)
                                   currentChan1 channels1 out2))))))
      else Inr (channels, out))"
  by pat_completeness auto
termination
  by (relation "measure (\<lambda>(advert, advertLen, cursor, currentChan, channels, out).
                   nat (advertLen - cursor))")
     (auto simp: less_le_trans [OF _ uint_ge_0] split: if_splits)

declare chdbg_parse.simps [simp del]

text \<open>Step 2: read the advertisement whole and parse it (lines 35-88).\<close>

definition chdbg_readAdvert :: "bus \<Rightarrow> panic + bus" where
  "chdbg_readAdvert b =
     (let ((e, header), b1) = tx_read 4 b;
          advertLen = uint16le header AND 0x7FFF
      in if 4 < advertLen \<and> advertLen < 500
         then (let ((e', advert), b2) = tx_read (unat advertLen) b1
               in case index advert 4 of
                    Inl p \<Rightarrow> Inl p
                  | Inr reportID \<Rightarrow>
                     (case chdbg_parse advert (uint advertLen) 5 0 Map.empty [] of
                        Inl p \<Rightarrow> Inl p
                      | Inr (channels, lines) \<Rightarrow>
                          Inr (b2\<lparr>trace := trace b2 @ map Out lines\<rparr>)))
         else Inr b1)"

text \<open>Step 3 and step 4: the commands (lines 93-111).\<close>

definition chdbg_initCmd :: "byte list" where
  "chdbg_initCmd = [0x02]"

definition chdbg_setFeature :: "byte list" where
  "chdbg_setFeature = [0xFD, 0x08, 0x00, 0x00, 0x00, 0x10, 0x27, 0x00, 0x00,
                       0x00, 0x00, 0x00, 0x00, 0x00, 0x00, 0x00, 0x00]"

definition chdbg_step3 :: "seqtab \<times> bus \<Rightarrow> panic + (seqtab \<times> bus)" where
  "chdbg_step3 sb =
     (case sendOnChannel (fst sb) 2 chdbg_initCmd (snd sb) of
        Inl p \<Rightarrow> Inl p
      | Inr (seq1, b1) \<Rightarrow> Inr (seq1, sleep 100 b1))"

definition chdbg_step4 :: "seqtab \<times> bus \<Rightarrow> panic + (seqtab \<times> bus)" where
  "chdbg_step4 sb =
     (case sendOnChannel (fst sb) 2 chdbg_setFeature (snd sb) of
        Inl p \<Rightarrow> Inl p
      | Inr (seq1, b1) \<Rightarrow> Inr (seq1, sleep 100 b1))"

text \<open>Steps 1 to 4 (lines 23-113); the failure of the soft reset write is ignored.\<close>

definition chdbg_setup :: "bus \<Rightarrow> panic + (seqtab \<times> bus)" where
  "chdbg_setup b =
     (let b1 = sleep 300 (snd (tx_write softReset b))
      in case chdbg_readAdvert b1 of
           Inl p \<Rightarrow> Inl p
         | Inr b2 \<Rightarrow>
            (case chdbg_step3 ([0, 0, 0, 0, 0, 0], b2) of
               Inl p \<Rightarrow> Inl p
             | Inr sb3 \<Rightarrow> chdbg_step4 sb3))"

section \<open>Tag-length-value records as the specification words them\<close>

text \<open>These definitions follow the specification, not a source file.  An advertisement is
  a sequence of records, each a tag byte, a length byte and that many value bytes.  Tag 6
  is a normal channel and tag 7 a wake channel (the value is the channel number followed
  by the name, so it has at least two bytes), tag 0x80 is the version string, any other
  tag says nothing.  \<open>parseAdvertisement\<close> is compared with them below.\<close>

definition spec_interpret :: "byte \<Rightarrow> byte list \<Rightarrow> console list" where
  "spec_interpret tag val =
     (if tag = 6 then (if 1 < length val then [ChannelLine (hd val) (tl val)] else [])
      else if tag = 7 then (if 1 < length val then [WakeChannelLine (hd val) (tl val)] else [])
      else if tag = 0x80 then [VersionLine val]
      else [])"

fun tlv_encode :: "(byte \<times> byte list) list \<Rightarrow> byte list" where
  "tlv_encode [] = []"
| "tlv_encode ((t, v) # rs) = t # of_nat (length v) # v @ tlv_encode rs"

fun spec_walk :: "(byte \<times> byte list) list \<Rightarrow> console list" where
  "spec_walk [] = []"
| "spec_walk ((t, v) # rs) = spec_interpret t v @ spec_walk rs"

section \<open>The SetFeature payload as the specification words it\<close>

text \<open>This definition follows the specification, not a source file: report ID 0xFD,
  sensor ID, flags, 2-byte sensitivity, 4-byte interval, 4-byte batch interval and
  4-byte sensor-specific word, all little-endian.  It is compared with the payloads the
  programs write out byte by byte.\<close>

definition putUint32 :: "32 word \<Rightarrow> byte list" where
  "putUint32 v = [ucast v, ucast (drop_bit 8 v), ucast (drop_bit 16 v), ucast (drop_bit 24 v)]"

definition spec_setFeature ::
  "byte \<Rightarrow> byte \<Rightarrow> 16 word \<Rightarrow> 32 word \<Rightarrow> 32 word \<Rightarrow> 32 word \<Rightarrow> byte list" where
  "spec_setFeature sensorID flags sensitivity interval batchInterval sensorSpecific =
     [0xFD, sensorID, flags] @ putUint16 sensitivity @ putUint32 interval
       @ putUint32 batchInterval @ putUint32 sensorSpecific"

section \<open>quaternionToEuler, three copies\<close>

text \<open>
  The function works on \<^verbatim>\<open>float32\<close> and calls \<^verbatim>\<open>math\<close> on \<^verbatim>\<open>float64\<close>.  The
  floating-point operations are not interpreted: they are the fields of \<open>fpu\<close>, over a
  type \<open>'s\<close> of single and a type \<open>'d\<close> of double precision values, and each copy is
  translated operation by operation, in the order of the source.
\<close>

record ('s, 'd) fpu =
  mul32 :: "'s \<Rightarrow> 's \<Rightarrow> 's"
  add32 :: "'s \<Rightarrow> 's \<Rightarrow> 's"
  sub32 :: "'s \<Rightarrow> 's \<Rightarrow> 's"
  const32_2 :: 's
  const32_1 :: 's
  float64 :: "'s \<Rightarrow> 'd"
  float32 :: "'d \<Rightarrow> 's"
  Atan2 :: "'d \<Rightarrow> 'd \<Rightarrow> 'd"
  Asin :: "'d \<Rightarrow> 'd"
  Abs :: "'d \<Rightarrow> 'd"
  Copysign :: "'d \<Rightarrow> 'd \<Rightarrow> 'd"
  ge64 :: "'d \<Rightarrow> 'd \<Rightarrow> bool"
  const64_1 :: 'd
  const64_half_pi :: 'd

record 's quaternion =
  qI :: 's
  qJ :: 's
  qK :: 's
  qReal :: 's

text \<open>src/gopherclaw/main.go, lines 110-130.\<close>

definition quaternionToEuler_gopherclaw ::
  "('s, 'd) fpu \<Rightarrow> 's quaternion \<Rightarrow> 's \<times> 's \<times> 's" where
  "quaternionToEuler_gopherclaw f q =
     (let sinr_cosp = mul32 f (const32_2 f)
                        (add32 f (mul32 f (qReal q) (qI q)) (mul32 f (qJ q) (qK q)));
          cosr_cosp = sub32 f (const32_1 f)
                        (mul32 f (const32_2 f)
                           (add32 f (mul32 f (qI q) (qI q)) (mul32 f (qJ q) (qJ q))));
          roll = float32 f (Atan2 f (float64 f sinr_cosp) (float64 f cosr_cosp));
          sinp = mul32 f (const32_2 f)
                   (sub32 f (mul32 f (qReal q) (qJ q)) (mul32 f (qK q) (qI q)));
          pitch = (if ge64 f (Abs f (float64 f sinp)) (const64_1 f)
                   then float32 f (Copysign f (const64_half_pi f) (float64 f sinp))
                   else float32 f (Asin f (float64 f sinp)));
          siny_cosp = mul32 f (const32_2 f)
                        (add32 f (mul32 f (qReal q) (qK q)) (mul32 f (qI q) (qJ q)));
          cosy_cosp = sub32 f (const32_1 f)
                        (mul32 f (const32_2 f)
                           (add32 f (mul32 f (qJ q) (qJ q)) (mul32 f (qK q) (qK q))));
          yaw = float32 f (Atan2 f (float64 f siny_cosp) (float64 f cosy_cosp))
      in (roll, pitch, yaw))"

text \<open>The NeoPixel demo, src/unnamed/part_001, lines 93-113.\<close>

definition quaternionToEuler_neopixel ::
  "('s, 'd) fpu \<Rightarrow> 's quaternion \<Rightarrow> 's \<times> 's \<times> 's" where
  "quaternionToEuler_neopixel f q =
     (let sinr_cosp = mul32 f (const32_2 f)
                        (add32 f (mul32 f (qReal q) (qI q)) (mul32 f (qJ q) (qK q)));
          cosr_cosp = sub32 f (const32_1 f)
                        (mul32 f (const32_2 f)
                           (add32 f (mul32 f (qI q) (qI q)) (mul32 f (qJ q) (qJ q))));
          roll = float32 f (Atan2 f (float64 f sinr_cosp) (float64 f cosr_cosp));
          sinp = mul32 f (const32_2 f)
                   (sub32 f (mul32 f (qReal q) (qJ q)) (mul32 f (qK q) (qI q)));
          pitch = (if ge64 f (Abs f (float64 f sinp)) (const64_1 f)
                   then float32 f (Copysign f (const64_half_pi f) (float64 f sinp))
                   else float32 f (Asin f (float64 f sinp)));
          siny_cosp = mul32 f (const32_2 f)
                        (add32 f (mul32 f (qReal q) (qK q)) (mul32 f (qI q) (qJ q)));
          cosy_cosp = sub32 f (const32_1 f)
                        (mul32 f (const32_2 f)
                           (add32 f (mul32 f (qJ q) (qJ q)) (mul32 f (qK q) (qK q))));
          yaw = float32 f (Atan2 f (float64 f siny_cosp) (float64 f cosy_cosp))
      in (roll, pitch, yaw))"

text \<open>The Euler-angle demo, in src/quatplot/main.go, lines 564-584.\<close>

definition quaternionToEuler_euler ::
  "('s, 'd) fpu \<Rightarrow> 's quaternion \<Rightarrow> 's \<times> 's \<times> 's" where
  "quaternionToEuler_euler f q =
     (let sinr_cosp = mul32 f (const32_2 f)
                        (add32 f (mul32 f (qReal q) (qI q)) (mul32 f (qJ q) (qK q)));
          cosr_cosp = sub32 f (const32_1 f)
                        (mul32 f (const32_2 f)
                           (add32 f (mul32 f (qI q) (qI q)) (mul32 f (qJ q) (qJ q))));
          roll = float32 f (Atan2 f (float64 f sinr_cosp) (float64 f cosr_cosp));
          sinp = mul32 f (const32_2 f)
                   (sub32 f (mul32 f (qReal q) (qJ q)) (mul32 f (qK q) (qI q)));
          pitch = (if ge64 f (Abs f (float64 f sinp)) (const64_1 f)
                   then float32 f (Copysign f (const64_half_pi f) (float64 f sinp))
                   else float32 f (Asin f (float64 f sinp)));
          siny_cosp = mul32 f (const32_2 f)
                        (add32 f (mul32 f (qReal q) (qK q)) (mul32 f (qI q) (qJ q)));
          cosy_cosp = sub32 f (const32_1 f)
                        (mul32 f (const32_2 f)
                           (add32 f (mul32 f (qJ q) (qJ q)) (mul32 f (qK q) (qK q))));
          yaw = float32 f (Atan2 f (float64 f siny_cosp) (float64 f cosy_cosp))
      in (roll, pitch, yaw))"

text \<open>The value \<^verbatim>\<open>sinp\<close> of the source, which decides the clamp.\<close>

definition sinp_of :: "('s, 'd) fpu \<Rightarrow> 's quaternion \<Rightarrow> 's" where
  "sinp_of f q =
     mul32 f (const32_2 f) (sub32 f (mul32 f (qReal q) (qJ q)) (mul32 f (qK q) (qI q)))"

section \<open>Devices to run the programs against\<close>

text \<open>\<open>silent\<close> acknowledges everything and sends no data, \<open>dead\<close> never answers,
  \<open>script rs\<close> replays the replies \<open>rs\<close> and is dead afterwards, \<open>flaky\<close> fails the
  first transaction only.\<close>

definition silent :: "nat \<Rightarrow> reply" where
  "silent n = Ack []"

definition dead :: "nat \<Rightarrow> reply" where
  "dead n = Nack"

definition script :: "reply list \<Rightarrow> nat \<Rightarrow> reply" where
  "script rs n = (if n < length rs then rs ! n else Nack)"

definition fresh :: "(nat \<Rightarrow> reply) \<Rightarrow> bus" where
  "fresh d = \<lparr>device = d, txs = 0, trace = []\<rparr>"

definition flaky :: "nat \<Rightarrow> reply" where
  "flaky n = (if n = 0 then Nack else Ack [])"

text \<open>How many of the next \<open>n\<close> transactions, starting with transaction \<open>t\<close>, fail
  in a row.\<close>

fun leading_nacks :: "(nat \<Rightarrow> reply) \<Rightarrow> nat \<Rightarrow> nat \<Rightarrow> nat" where
  "leading_nacks d t 0 = 0"
| "leading_nacks d t (Suc n) = (if d t = Nack then Suc (leading_nacks d (Suc t) n) else 0)"

section \<open>Frames and sequence counters\<close>

lemma frame_layout:
  "copy_at 4 p ((copy_at 0 (putUint16 v) (replicate (4 + length p) 0))[2 := c, 3 := s])
     = putUint16 v @ [c, s] @ p"
  by (simp add: copy_at_def putUint16_def replicate_add numeral_eq_Suc)

lemma sendOnChannel_ok:
  "unat c < length seq \<Longrightarrow>
   sendOnChannel seq c p b =
     Inr (seq[unat c := seq ! unat c + 1],
          b\<lparr>txs := Suc (txs b),
            trace := trace b @ [Write (putUint16 (of_nat (4 + length p)) @ [c, seq ! unat c] @ p)]\<rparr>)"
  by (simp add: sendOnChannel_def Let_def frame_layout tx_write_def split: reply.split)

lemma sendOnChannel_panic:
  "\<not> unat c < length seq \<Longrightarrow> sendOnChannel seq c p b = Inl IndexOutOfRange"
  by (simp add: sendOnChannel_def Let_def)

lemma putUint16_value:
  "unat (putUint16 v ! 0) + 256 * unat (putUint16 v ! 1) = unat v"
proof -
  have a: "unat (ucast v :: byte) = unat v mod 256"
    by (simp add: unsigned_ucast_eq take_bit_eq_mod)
  have b: "unat (ucast (drop_bit 8 v) :: byte) = unat v div 256"
  proof -
    have "unat v < 65536" using unsigned_less [of v, where 'a = nat] by simp
    then have "unat v div 256 < 256" by simp
    then show ?thesis
      by (simp add: unsigned_ucast_eq take_bit_eq_mod unat_drop_bit_eq drop_bit_eq_div
            unat_div_distrib)
  qed
  show ?thesis by (simp add: putUint16_def a b)
qed

lemma unat_of_nat16: "unat (of_nat n :: 16 word) = n mod 65536"
  by (simp add: unat_of_nat)

lemma frame_header_value:
  "unat ((putUint16 v @ r) ! 0) + 256 * unat ((putUint16 v @ r) ! 1) = unat v"
proof -
  have "(putUint16 v @ r) ! 0 = putUint16 v ! 0" "(putUint16 v @ r) ! 1 = putUint16 v ! 1"
    by (simp_all add: putUint16_def)
  then show ?thesis by (simp only: putUint16_value)
qed

text \<open>
  C1 (as amended).  A call of \<open>sendOnChannel\<close> on a channel below 6 writes one frame: its
  first two bytes are the little-endian encoding of \<open>(4 + len(p)) mod 65536\<close>, which is
  \<open>4 + len(p)\<close> for every payload of at most 65531 bytes; byte 2 is the channel; byte 3
  is the channel's counter before the call; the rest is the payload.  The call adds one
  to that counter (a byte, so 255 becomes 0) and leaves the other five alone, so the next
  frame on the same channel carries the sequence byte plus one.
\<close>

theorem sendOnChannel_frame_and_counter:
  assumes "length seq = 6" and "unat channel < 6"
  shows "\<exists>frame seq' b'.
           sendOnChannel seq channel payload b = Inr (seq', b') \<and>
           trace b' = trace b @ [Write frame] \<and>
           length frame = 4 + length payload \<and>
           unat (frame ! 0) + 256 * unat (frame ! 1) = (4 + length payload) mod 65536 \<and>
           (length payload \<le> 65531 \<longrightarrow>
              unat (frame ! 0) + 256 * unat (frame ! 1) = 4 + length payload) \<and>
           frame ! 2 = channel \<and>
           frame ! 3 = seq ! unat channel \<and>
           drop 4 frame = payload \<and>
           length seq' = 6 \<and>
           seq' ! unat channel = seq ! unat channel + 1 \<and>
           (\<forall>i < 6. i \<noteq> unat channel \<longrightarrow> seq' ! i = seq ! i) \<and>
           (\<exists>frame2 seq2 b2.
              sendOnChannel seq' channel payload2 b' = Inr (seq2, b2) \<and>
              trace b2 = trace b' @ [Write frame2] \<and>
              frame2 ! 3 = frame ! 3 + 1)"
proof -
  let ?v = "of_nat (4 + length payload) :: 16 word"
  let ?frame = "putUint16 ?v @ [channel, seq ! unat channel] @ payload"
  let ?seq' = "seq[unat channel := seq ! unat channel + 1]"
  let ?b' = "b\<lparr>txs := Suc (txs b), trace := trace b @ [Write ?frame]\<rparr>"
  let ?frame2 = "putUint16 (of_nat (4 + length payload2)) @ [channel, ?seq' ! unat channel] @ payload2"
  let ?b2 = "?b'\<lparr>txs := Suc (txs ?b'), trace := trace ?b' @ [Write ?frame2]\<rparr>"
  have c: "unat channel < length seq" using assms by simp
  have c': "unat channel < length ?seq'" using assms by simp
  have first: "sendOnChannel seq channel payload b = Inr (?seq', ?b')"
    by (rule sendOnChannel_ok [OF c])
  have second: "sendOnChannel ?seq' channel payload2 ?b' =
                  Inr (?seq'[unat channel := ?seq' ! unat channel + 1], ?b2)"
    by (rule sendOnChannel_ok [OF c'])
  have enc: "unat (?frame ! 0) + 256 * unat (?frame ! 1) = (4 + length payload) mod 65536"
    by (simp only: frame_header_value unat_of_nat16)
  have small: "length payload \<le> 65531 \<longrightarrow>
                 unat (?frame ! 0) + 256 * unat (?frame ! 1) = 4 + length payload"
    using enc by simp
  have f2: "?frame ! 2 = channel" by (simp add: putUint16_def)
  have f3: "?frame ! 3 = seq ! unat channel" by (simp add: putUint16_def)
  have f4: "drop 4 ?frame = payload" by (simp add: putUint16_def)
  have flen: "length ?frame = 4 + length payload" by (simp add: putUint16_def)
  have s1: "?seq' ! unat channel = seq ! unat channel + 1" using c by simp
  have s2: "\<forall>i < 6. i \<noteq> unat channel \<longrightarrow> ?seq' ! i = seq ! i" by simp
  have g3: "?frame2 ! 3 = ?frame ! 3 + 1" using c by (simp add: putUint16_def)
  have inner: "\<exists>frame2 seq2 b2.
              sendOnChannel ?seq' channel payload2 ?b' = Inr (seq2, b2) \<and>
              trace b2 = trace ?b' @ [Write frame2] \<and>
              frame2 ! 3 = ?frame ! 3 + 1"
  proof (intro exI conjI)
    show "sendOnChannel ?seq' channel payload2 ?b' =
            Inr (?seq'[unat channel := ?seq' ! unat channel + 1], ?b2)"
      by (rule second)
    show "trace ?b2 = trace ?b' @ [Write ?frame2]" by simp
    show "?frame2 ! 3 = ?frame ! 3 + 1" by (rule g3)
  qed
  show ?thesis
  proof ((rule exI)+, intro conjI)
    show "sendOnChannel seq channel payload b = Inr (?seq', ?b')" by (rule first)
    show "trace ?b' = trace b @ [Write ?frame]" by simp
    show "length ?frame = 4 + length payload" by (rule flen)
    show "unat (?frame ! 0) + 256 * unat (?frame ! 1) = (4 + length payload) mod 65536"
      by (rule enc)
    show "length payload \<le> 65531 \<longrightarrow>
            unat (?frame ! 0) + 256 * unat (?frame ! 1) = 4 + length payload"
      by (rule small)
    show "?frame ! 2 = channel" by (rule f2)
    show "?frame ! 3 = seq ! unat channel" by (rule f3)
    show "drop 4 ?frame = payload" by (rule f4)
    show "length ?seq' = 6" using assms(1) by simp
    show "?seq' ! unat channel = seq ! unat channel + 1" by (rule s1)
    show "\<forall>i < 6. i \<noteq> unat channel \<longrightarrow> ?seq' ! i = seq ! i" by (rule s2)
    show "\<exists>frame2 seq2 b2.
              sendOnChannel ?seq' channel payload2 ?b' = Inr (seq2, b2) \<and>
              trace b2 = trace ?b' @ [Write frame2] \<and>
              frame2 ! 3 = ?frame ! 3 + 1"
      by (rule inner)
  qed
qed

text \<open>The theorem at a counter about to wrap: channel 2 at 255, a product ID request.\<close>

theorem sendOnChannel_frame_and_counter_witness:
  "length [0, 0, 255, 0, 0, 0 :: byte] = 6 \<and> unat (2 :: byte) < 6 \<and>
   (\<exists>frame seq' b'.
      sendOnChannel [0, 0, 255, 0, 0, 0] 2 [0xF9, 0] (fresh silent) = Inr (seq', b') \<and>
      trace b' = [Write frame] \<and>
      unat (frame ! 0) + 256 * unat (frame ! 1) = 6 \<and>
      frame ! 3 = 255 \<and>
      seq' ! 2 = 0)"
  using sendOnChannel_frame_and_counter
          [of "[0, 0, 255, 0, 0, 0]" 2 "[0xF9, 0]" "fresh silent" "[]"]
  by (auto simp: fresh_def)

text \<open>
  The claim as stated fails for a payload of 65532 bytes: the frame is 65536 bytes long
  and its first two bytes are 00 00, since \<^verbatim>\<open>uint16(frameLen)\<close> drops the high bits.
\<close>

theorem sendOnChannel_length_counterexample:
  "sendOnChannel [0, 0, 0, 0, 0, 0] 2 (replicate 65532 0) (fresh silent) =
     Inr ([0, 0, 1, 0, 0, 0],
          \<lparr>device = silent, txs = 1, trace = [Write (0 # 0 # 2 # 0 # replicate 65532 0)]\<rparr>)
   \<and> unat (0 :: byte) + 256 * unat (0 :: byte) \<noteq> 4 + length (replicate 65532 (0 :: byte))"
  by (simp add: sendOnChannel_ok fresh_def putUint16_def)

section \<open>The bus primitives and the loops of the comprehensive test\<close>

lemma tx_write_bus:
  "snd (tx_write w b) = b\<lparr>txs := Suc (txs b), trace := trace b @ [Write w]\<rparr>"
  by (simp add: tx_write_def Let_def split: reply.split)

lemma tx_write_err:
  "fst (tx_write w b) = (if device b (txs b) = Nack then Some I2CError else None)"
  by (simp add: tx_write_def Let_def split: reply.split)

lemma tx_read_bus:
  "snd (tx_read n b) = b\<lparr>txs := Suc (txs b), trace := trace b @ [Read n]\<rparr>"
  by (simp add: tx_read_def Let_def split: reply.split)

lemma tx_read_err:
  "fst (fst (tx_read n b)) = (if device b (txs b) = Nack then Some I2CError else None)"
  by (simp add: tx_read_def Let_def split: reply.split)

lemma tx_read_length: "length (snd (fst (tx_read n b))) = n"
  by (auto simp: tx_read_def Let_def split: reply.split)

lemma comp_softReset_trace:
  "0 \<le> a \<Longrightarrow> a \<le> 5 \<Longrightarrow>
   (let k = leading_nacks (device (c_i2c st)) (txs (c_i2c st)) (nat (5 - a));
        st' = comp_softReset a st
    in trace (c_i2c st') = trace (c_i2c st)
            @ concat (replicate k [Write softReset, Sleep 30])
            @ (if k < nat (5 - a) then [Write softReset] else [])
       \<and> c_seq st' = c_seq st \<and> device (c_i2c st') = device (c_i2c st))"
proof (induction a st rule: comp_softReset.induct)
  case (1 attempt st)
  show ?case
  proof (cases "attempt < 5")
    case False
    with 1 show ?thesis by (simp add: comp_softReset.simps)
  next
    case True
    define n where "n = nat (4 - attempt)"
    have n: "nat (5 - attempt) = Suc n" "nat (5 - (attempt + 1)) = n"
      using True 1(2) by (simp_all add: n_def)
    show ?thesis
    proof (cases "device (c_i2c st) (txs (c_i2c st)) = Nack")
      case False
      then show ?thesis using True
        by (simp add: comp_softReset.simps [of attempt] n Let_def split_beta
              tx_write_bus tx_write_err)
    next
      case Nack: True
      let ?w = "tx_write softReset (c_i2c st)"
      let ?st1 = "nap 30 (st\<lparr>c_err := fst ?w, c_i2c := snd ?w\<rparr>)"
      have unfold: "comp_softReset attempt st = comp_softReset (attempt + 1) ?st1"
        using True Nack
        by (simp add: comp_softReset.simps [of attempt] Let_def split_beta tx_write_err)
      have ih: "let k = leading_nacks (device (c_i2c ?st1)) (txs (c_i2c ?st1)) (nat (5 - (attempt + 1)));
                    st' = comp_softReset (attempt + 1) ?st1
                in trace (c_i2c st') = trace (c_i2c ?st1)
                      @ concat (replicate k [Write softReset, Sleep 30])
                      @ (if k < nat (5 - (attempt + 1)) then [Write softReset] else [])
                   \<and> c_seq st' = c_seq ?st1 \<and> device (c_i2c st') = device (c_i2c ?st1)"
        using True 1(2) Nack
        by (intro 1(1) [OF True refl prod.collapse refl])
           (simp_all add: tx_write_err)
      show ?thesis
        using ih Nack
        by (simp add: unfold n(1) n_def [symmetric] Let_def nap_def sleep_def tx_write_bus)
    qed
  qed
qed

lemma writes_append [simp]: "writes (xs @ ys) = writes xs @ writes ys"
  by (induction xs rule: writes.induct) simp_all

lemma reads_append [simp]: "reads (xs @ ys) = reads xs @ reads ys"
  by (induction xs rule: reads.induct) simp_all

lemma outputs_append [simp]: "outputs (xs @ ys) = outputs xs @ outputs ys"
  by (induction xs rule: outputs.induct) simp_all

lemma writes_retries:
  "writes (concat (replicate k [Write w, Sleep ms])) = replicate k w"
  by (induction k) simp_all

lemma leading_nacks_le: "leading_nacks d t n \<le> n"
  by (induction n arbitrary: t) simp_all

lemma say_seq [simp]: "c_seq (say out st) = c_seq st"
  by (simp add: say_def)

lemma nap_seq [simp]: "c_seq (nap ms st) = c_seq st"
  by (simp add: nap_def)

lemma say_writes [simp]: "writes (trace (c_i2c (say out st))) = writes (trace (c_i2c st))"
  by (simp add: say_def println_def)

lemma nap_writes [simp]: "writes (trace (c_i2c (nap ms st))) = writes (trace (c_i2c st))"
  by (simp add: nap_def sleep_def)

lemma tx_read_writes [simp]: "writes (trace (snd (tx_read n b))) = writes (trace b)"
  by (simp add: tx_read_bus)

lemma comp_readAdvert_keeps:
  "c_seq (comp_readAdvert i st) = c_seq st \<and>
   writes (trace (c_i2c (comp_readAdvert i st))) = writes (trace (c_i2c st))"
proof (induction i st rule: comp_readAdvert.induct)
  case (1 i st)
  show ?case
  proof (cases "i < 10")
    case False
    then show ?thesis by (simp add: comp_readAdvert.simps)
  next
    case True
    let ?r = "tx_read 4 (c_i2c st)"
    let ?st1 = "st\<lparr>c_i2c := snd ?r\<rparr>"
    let ?len = "uint16le (snd (fst ?r))"
    show ?thesis
    proof (cases "0 < ?len \<and> ?len < 1000 \<and> ?len AND 0x8000 = 0")
      case ok: True
      then show ?thesis using True
        by (simp add: comp_readAdvert.simps [of i] Let_def split_beta)
    next
      case no: False
      have "c_seq (comp_readAdvert (i + 1) (nap 50 ?st1)) = c_seq (nap 50 ?st1) \<and>
            writes (trace (c_i2c (comp_readAdvert (i + 1) (nap 50 ?st1))))
              = writes (trace (c_i2c (nap 50 ?st1)))"
        using no
        by (intro 1 [OF True refl prod.collapse prod.collapse refl refl]) simp
      then show ?thesis using True no
        by (simp add: comp_readAdvert.simps [of i] Let_def split_beta)
    qed
  qed
qed

lemma comp_drain_keeps:
  "c_seq (comp_drain i st) = c_seq st \<and>
   writes (trace (c_i2c (comp_drain i st))) = writes (trace (c_i2c st))"
proof (induction i st rule: comp_drain.induct)
  case (1 i st)
  then show ?case
    by (cases "i < 5") (simp_all add: comp_drain.simps [of i])
qed

lemma comp_prodIDOnce_keeps [simp]:
  "c_seq (comp_prodIDOnce st) = c_seq st"
  "writes (trace (c_i2c (comp_prodIDOnce st))) = writes (trace (c_i2c st))"
  by (simp_all add: comp_prodIDOnce_def Let_def split_beta)

lemma comp_readProdID_keeps:
  "c_seq (comp_readProdID i st) = c_seq st \<and>
   writes (trace (c_i2c (comp_readProdID i st))) = writes (trace (c_i2c st))"
proof (induction i st rule: comp_readProdID.induct)
  case (1 i st)
  then show ?case
    by (cases "i < 10") (simp_all add: comp_readProdID.simps [of i])
qed

lemma setFeature_spec: "setFeature = spec_setFeature 0x08 0 0 10000 0 0"
  by (simp add: setFeature_def spec_setFeature_def putUint16_def putUint32_def)

lemma send_ok:
  "unat c < length (c_seq st) \<Longrightarrow>
   send c p st =
     Inr (st\<lparr>c_seq := (c_seq st)[unat c := c_seq st ! unat c + 1],
             c_i2c := (c_i2c st)\<lparr>txs := Suc (txs (c_i2c st)),
                        trace := trace (c_i2c st)
                          @ [Write (putUint16 (of_nat (4 + length p)) @ [c, c_seq st ! unat c] @ p)]\<rparr>\<rparr>)"
  by (simp add: send_def sendOnChannel_ok)

lemma comp_softReset_writes:
  "c_seq (comp_softReset 0 st) = c_seq st \<and>
   writes (trace (c_i2c (comp_softReset 0 st))) =
     writes (trace (c_i2c st))
       @ replicate (min (Suc (leading_nacks (device (c_i2c st)) (txs (c_i2c st)) 5)) 5) softReset"
proof -
  define k where "k = leading_nacks (device (c_i2c st)) (txs (c_i2c st)) 5"
  have k: "k \<le> 5" unfolding k_def by (rule leading_nacks_le)
  have t: "trace (c_i2c (comp_softReset 0 st)) = trace (c_i2c st)
             @ concat (replicate k [Write softReset, Sleep 30])
             @ (if k < 5 then [Write softReset] else [])"
    and s: "c_seq (comp_softReset 0 st) = c_seq st"
    using comp_softReset_trace [of 0 st] by (simp_all add: Let_def k_def)
  have "writes (trace (c_i2c (comp_softReset 0 st)))
          = writes (trace (c_i2c st)) @ replicate (min (Suc k) 5) softReset"
  proof (cases "k < 5")
    case True
    then have "min (Suc k) 5 = Suc k" by simp
    then show ?thesis using True
      by (simp add: t writes_retries replicate_append_same)
  next
    case False
    with k have "k = 5" by simp
    then show ?thesis by (simp add: t writes_retries)
  qed
  then show ?thesis using s by (simp add: k_def)
qed

lemma comp_frames_any_device:
  "comp_frames b =
     Inr (writes (trace b)
          @ replicate (min (Suc (leading_nacks (device b) (txs b) 5)) 5) softReset
          @ [[0x11, 0, 2, 0] @ initCmd, [6, 0, 2, 1] @ prodIDReq, [0x15, 0, 2, 2] @ setFeature])"
proof -
  let ?st1 = "nap 300 (comp_softReset 0 (comp_init b))"
  let ?st2 = "comp_readAdvert 0 ?st1"
  have a: "c_seq ?st2 = [0, 0, 0, 0, 0, 0]"
    by (simp add: comp_readAdvert_keeps comp_softReset_writes comp_init_def)
  have w: "writes (trace (c_i2c ?st2)) =
             writes (trace b) @ replicate (min (Suc (leading_nacks (device b) (txs b) 5)) 5) softReset"
    by (simp add: comp_readAdvert_keeps comp_softReset_writes comp_init_def)
  obtain st3 where st3: "comp_step3 ?st2 = Inr st3" "c_seq st3 = [0, 0, 1, 0, 0, 0]"
      "writes (trace (c_i2c st3)) = writes (trace (c_i2c ?st2)) @ [[0x11, 0, 2, 0] @ initCmd]"
    by (simp add: comp_step3_def send_ok a comp_drain_keeps)
       (simp add: initCmd_def putUint16_def)
  obtain st4 where st4: "comp_step4 st3 = Inr st4" "c_seq st4 = [0, 0, 2, 0, 0, 0]"
      "writes (trace (c_i2c st4)) = writes (trace (c_i2c st3)) @ [[6, 0, 2, 1] @ prodIDReq]"
    by (simp add: comp_step4_def send_ok st3(2) comp_readProdID_keeps)
       (simp add: prodIDReq_def putUint16_def)
  obtain st5 where st5: "comp_step5 st4 = Inr st5"
      "writes (trace (c_i2c st5)) = writes (trace (c_i2c st4)) @ [[0x15, 0, 2, 2] @ setFeature]"
    by (simp add: comp_step5_def send_ok st4(2))
       (simp add: setFeature_def putUint16_def)
  have "comp_upto_step5 b = Inr st5"
    by (simp add: comp_upto_step5_def comp_setup_def Let_def st3(1) st4(1) st5(1))
  then show ?thesis
    by (simp add: comp_frames_def st5(2) st4(3) st3(3) w)
qed

section \<open>The SetFeature frame\<close>

lemma chdbg_steps:
  "length seq = 6 \<Longrightarrow>
   (case chdbg_step3 (seq, b) of Inl p \<Rightarrow> Inl p | Inr sb \<Rightarrow> chdbg_step4 sb) =
     Inr (seq[2 := seq ! 2 + 2],
          b\<lparr>txs := Suc (Suc (txs b)),
            trace := trace b @ [Write [5, 0, 2, seq ! 2, 2], Sleep 100,
                                Write ([0x15, 0, 2, seq ! 2 + 1] @ chdbg_setFeature), Sleep 100]\<rparr>)"
  by (simp add: chdbg_step3_def chdbg_step4_def sendOnChannel_ok sleep_def)
     (simp add: chdbg_initCmd_def chdbg_setFeature_def putUint16_def add.commute [of "seq ! 2" 2])

lemma leading_nacks_silent [simp]: "leading_nacks silent t n = 0"
  by (cases n) (simp_all add: silent_def)

lemma leading_nacks_dead [simp]: "leading_nacks dead t n = n"
  by (induction n arbitrary: t) (simp_all add: dead_def)

lemma leading_nacks_flaky [simp]: "leading_nacks flaky 0 (Suc (Suc n)) = 1"
  by (simp add: flaky_def)

text \<open>
  C2 (as amended).  Enabling the game rotation vector (sensor 0x08) at 10000 microseconds
  through \<open>sendOnChannel\<close> is exactly one bus write of 21 bytes,
  15 00 02 s FD 08 00 00 00 10 27 00 00 00 00 00 00 00 00 00 00: length 0x0015
  little-endian, channel 2, the sequence byte \<open>s\<close> that the channel 2 counter holds at
  that moment, then the 17-byte payload the specification describes (report ID, sensor
  ID, flags, sensitivity, interval, batch interval, sensor-specific word).  \<open>s\<close> is 0 on
  a fresh counter table; the comprehensive test reaches this step after the Initialize
  and the product ID request, so whatever the device does it writes the frame with
  \<open>s = 2\<close>, as the fourth kind of frame after the soft reset attempts.
\<close>

theorem set_feature_frame:
  "(length seq = 6 \<longrightarrow>
      sendOnChannel seq 2 setFeature b =
        Inr (seq[2 := seq ! 2 + 1],
             b\<lparr>txs := Suc (txs b),
               trace := trace b
                 @ [Write ([0x15, 0x00, 0x02, seq ! 2] @ spec_setFeature 0x08 0 0 10000 0 0)]\<rparr>))
   \<and> length ([0x15, 0x00, 0x02, seq ! 2] @ spec_setFeature 0x08 0 0 10000 0 0) = 21
   \<and> spec_setFeature 0x08 0 0 10000 0 0 =
       [0xFD, 0x08, 0x00, 0x00, 0x00, 0x10, 0x27, 0x00, 0x00,
        0x00, 0x00, 0x00, 0x00, 0x00, 0x00, 0x00, 0x00]
   \<and> comp_frames b0 =
       Inr (writes (trace b0)
            @ replicate (min (Suc (leading_nacks (device b0) (txs b0) 5)) 5) softReset
            @ [[0x11, 0, 2, 0] @ initCmd, [6, 0, 2, 1] @ prodIDReq,
               [0x15, 0, 2, 2] @ spec_setFeature 0x08 0 0 10000 0 0])"
proof (intro conjI impI)
  assume "length seq = 6"
  then show "sendOnChannel seq 2 setFeature b =
        Inr (seq[2 := seq ! 2 + 1],
             b\<lparr>txs := Suc (txs b),
               trace := trace b
                 @ [Write ([0x15, 0x00, 0x02, seq ! 2] @ spec_setFeature 0x08 0 0 10000 0 0)]\<rparr>)"
    by (simp add: sendOnChannel_ok setFeature_spec [symmetric])
       (simp add: setFeature_def putUint16_def)
next
  show "length ([0x15, 0x00, 0x02, seq ! 2] @ spec_setFeature 0x08 0 0 10000 0 0) = 21"
    by (simp add: setFeature_spec [symmetric] setFeature_def)
next
  show "spec_setFeature 0x08 0 0 10000 0 0 =
       [0xFD, 0x08, 0x00, 0x00, 0x00, 0x10, 0x27, 0x00, 0x00,
        0x00, 0x00, 0x00, 0x00, 0x00, 0x00, 0x00, 0x00]"
    by (simp add: setFeature_spec [symmetric] setFeature_def)
next
  show "comp_frames b0 =
       Inr (writes (trace b0)
            @ replicate (min (Suc (leading_nacks (device b0) (txs b0) 5)) 5) softReset
            @ [[0x11, 0, 2, 0] @ initCmd, [6, 0, 2, 1] @ prodIDReq,
               [0x15, 0, 2, 2] @ spec_setFeature 0x08 0 0 10000 0 0])"
    by (simp only: comp_frames_any_device setFeature_spec)
qed

text \<open>On a fresh counter table the frame is the one of the specification's scenario.\<close>

theorem set_feature_frame_witness:
  "length [0, 0, 0, 0, 0, 0 :: byte] = 6 \<and>
   sendOnChannel [0, 0, 0, 0, 0, 0] 2 setFeature (fresh silent) =
     Inr ([0, 0, 1, 0, 0, 0],
          \<lparr>device = silent, txs = 1,
           trace = [Write [0x15, 0x00, 0x02, 0x00, 0xFD, 0x08, 0x00, 0x00, 0x00, 0x10, 0x27,
                           0x00, 0x00, 0x00, 0x00, 0x00, 0x00, 0x00, 0x00, 0x00, 0x00]]\<rparr>)"
  using set_feature_frame [of "[0, 0, 0, 0, 0, 0]" "fresh silent" "fresh silent", THEN conjunct1]
  by (simp add: fresh_def spec_setFeature_def putUint16_def putUint32_def)

text \<open>The claim as stated gives sequence 0; the comprehensive test, run against a device
  that acknowledges everything, writes the frame with sequence 2.\<close>

theorem set_feature_sequence_counterexample:
  "comp_frames (fresh silent) =
     Inr [[5, 0, 1, 0, 1],
          [0x11, 0, 2, 0, 0xF2, 0, 4, 1, 0, 0, 0, 0, 0, 0, 0, 0, 0],
          [6, 0, 2, 1, 0xF9, 0],
          [0x15, 0, 2, 2, 0xFD, 8, 0, 0, 0, 0x10, 0x27, 0, 0, 0, 0, 0, 0, 0, 0, 0, 0]]
   \<and> [0x15, 0, 2, 2, 0xFD, 8, 0, 0, 0, 0x10, 0x27, 0, 0, 0, 0, 0, 0, 0, 0, 0, 0]
     \<noteq> [0x15, 0, 2, 0, 0xFD, 8, 0, 0, 0, 0x10, 0x27, 0, 0, 0, 0, 0, 0, 0, 0, 0, 0 :: byte]"
  by (simp add: comp_frames_any_device fresh_def softReset_def initCmd_def
        prodIDReq_def setFeature_def)

section \<open>The soft reset\<close>

lemma i2c_main_nack:
  "device b (txs b) = Nack \<Longrightarrow>
   i2c_main b = Inr (b\<lparr>txs := Suc (txs b), trace := trace b @ [Write softReset]\<rparr>)"
  by (simp add: i2c_main_def tx_write_def)

lemma sf_main_nack:
  "device b (txs b) = Nack \<Longrightarrow>
   sf_main b = Inr (b\<lparr>txs := Suc (txs b), trace := trace b @ [Write softReset]\<rparr>)"
  by (simp add: sf_main_def tx_write_def)

text \<open>
  C8 (as amended).  Every program writes the same five bytes 05 00 01 00 01 as its soft
  reset: a frame of length 5 on channel 1, sequence 0, payload 01.  The comprehensive
  test retries the write: when the first \<open>k\<close> of the next five transactions fail, it
  writes the frame \<open>k\<close> times, sleeping 30 ms after each failure, and once more if
  \<open>k < 5\<close>; that last write succeeds and there is none after it.  So there are at most
  five attempts, each retry comes after a 30 ms sleep, and the first success ends the
  loop.  The minimal I2C test and the SetFeature test write the frame once and return
  when that write fails.
\<close>

theorem soft_reset_attempts:
  "softReset = [5, 0, 1, 0, 1]
   \<and> softReset = putUint16 5 @ [1, 0] @ [1]
   \<and> trace (c_i2c (comp_softReset 0 (comp_init b))) =
       trace b
       @ concat (replicate (leading_nacks (device b) (txs b) 5) [Write softReset, Sleep 30])
       @ (if leading_nacks (device b) (txs b) 5 < 5 then [Write softReset] else [])
   \<and> writes (trace (c_i2c (comp_softReset 0 (comp_init b)))) =
       writes (trace b) @ replicate (min (Suc (leading_nacks (device b) (txs b) 5)) 5) softReset
   \<and> (device b (txs b) = Nack \<longrightarrow>
        i2c_main b = Inr (b\<lparr>txs := Suc (txs b), trace := trace b @ [Write softReset]\<rparr>) \<and>
        sf_main b = Inr (b\<lparr>txs := Suc (txs b), trace := trace b @ [Write softReset]\<rparr>))"
proof (intro conjI impI)
  show "softReset = [5, 0, 1, 0, 1]" by (simp add: softReset_def)
  show "softReset = putUint16 5 @ [1, 0] @ [1]" by (simp add: softReset_def putUint16_def)
  show "trace (c_i2c (comp_softReset 0 (comp_init b))) =
       trace b
       @ concat (replicate (leading_nacks (device b) (txs b) 5) [Write softReset, Sleep 30])
       @ (if leading_nacks (device b) (txs b) 5 < 5 then [Write softReset] else [])"
    using comp_softReset_trace [of 0 "comp_init b"] by (simp add: Let_def comp_init_def)
  show "writes (trace (c_i2c (comp_softReset 0 (comp_init b)))) =
       writes (trace b) @ replicate (min (Suc (leading_nacks (device b) (txs b) 5)) 5) softReset"
    using comp_softReset_writes [of "comp_init b"] by (simp add: comp_init_def)
next
  assume "device b (txs b) = Nack"
  then show "i2c_main b = Inr (b\<lparr>txs := Suc (txs b), trace := trace b @ [Write softReset]\<rparr>)"
    by (rule i2c_main_nack)
next
  assume "device b (txs b) = Nack"
  then show "sf_main b = Inr (b\<lparr>txs := Suc (txs b), trace := trace b @ [Write softReset]\<rparr>)"
    by (rule sf_main_nack)
qed

text \<open>Against a device that never answers: five attempts in one program, one in the
  other.\<close>

theorem soft_reset_attempts_witness:
  "device (fresh dead) (txs (fresh dead)) = Nack \<and>
   writes (trace (c_i2c (comp_softReset 0 (comp_init (fresh dead))))) =
     [[5, 0, 1, 0, 1], [5, 0, 1, 0, 1], [5, 0, 1, 0, 1], [5, 0, 1, 0, 1], [5, 0, 1, 0, 1]] \<and>
   i2c_main (fresh dead) = Inr \<lparr>device = dead, txs = 1, trace = [Write [5, 0, 1, 0, 1]]\<rparr>"
  using soft_reset_attempts [of "fresh dead"]
  by (simp add: fresh_def dead_def numeral_eq_Suc)

text \<open>The claim as stated fails in the minimal I2C test: the first write fails, a second
  one would succeed, and the program has written the frame once and ended.\<close>

theorem soft_reset_no_retry_counterexample:
  "i2c_main (fresh flaky) = Inr \<lparr>device = flaky, txs = 1, trace = [Write [5, 0, 1, 0, 1]]\<rparr>
   \<and> flaky 1 = Ack []"
  by (simp add: i2c_main_nack fresh_def flaky_def softReset_def)

text \<open>The comprehensive test on the same device does retry.\<close>

lemma comp_softReset_flaky:
  "trace (c_i2c (comp_softReset 0 (comp_init (fresh flaky)))) =
     [Write [5, 0, 1, 0, 1], Sleep 30, Write [5, 0, 1, 0, 1]]"
  using comp_softReset_trace [of 0 "comp_init (fresh flaky)"]
  by (simp add: Let_def comp_init_def fresh_def softReset_def numeral_eq_Suc flaky_def)

section \<open>The Initialize command\<close>

text \<open>The comprehensive test and the SetFeature test send the 13 bytes
  F2 00 04 01 00 00 00 00 00 00 00 00 00 on channel 2.\<close>

lemma initCmd_bytes:
  "take 4 initCmd = [0xF2, 0x00, 0x04, 0x01]" "drop 4 initCmd = replicate 9 0"
  "length initCmd = 13" "sf_initPayload = initCmd"
  by (simp_all add: initCmd_def sf_initPayload_def eval_nat_numeral)

lemma sf_initFrame_bytes: "sf_initFrame = [0x11, 0, 2, 0] @ initCmd"
  by (simp add: sf_initFrame_def Let_def frame_layout)
     (simp add: sf_initPayload_def initCmd_def putUint16_def)

lemma sf_frame_bytes: "sf_frame = [0x15, 0, 2, 0] @ spec_setFeature 0x01 0 0 10000 0 0"
  by (simp add: sf_frame_def Let_def frame_layout)
     (simp add: sf_payload_def spec_setFeature_def putUint16_def putUint32_def)

lemma comp_step3_frame:
  "length (c_seq st) = 6 \<Longrightarrow>
   \<exists>st'. comp_step3 st = Inr st' \<and>
     writes (trace (c_i2c st')) =
       writes (trace (c_i2c st)) @ [[0x11, 0, 2, c_seq st ! 2] @ initCmd]"
  by (simp add: comp_step3_def send_ok comp_drain_keeps)
     (simp add: initCmd_def putUint16_def)

text \<open>
  C6.  The channel debug program sends as its Initialize command, on channel 2, the
  single byte 02: against a device that acknowledges everything its second write is
  05 00 02 00 02, not the 17-byte frame 11 00 02 00 F2 00 04 01 00 ... 00 that the claim
  describes and the two other programs send.
\<close>

theorem channel_debug_initialize_frame:
  "chdbg_setup (fresh silent) =
     Inr ([0, 0, 2, 0, 0, 0],
          \<lparr>device = silent, txs = 4,
           trace = [Write [5, 0, 1, 0, 1], Sleep 300, Read 4,
                    Write [5, 0, 2, 0, 0x02], Sleep 100,
                    Write [0x15, 0, 2, 1, 0xFD, 0x08, 0, 0, 0, 0x10, 0x27,
                           0, 0, 0, 0, 0, 0, 0, 0, 0, 0], Sleep 100]\<rparr>)"
proof -
  let ?b1 = "sleep 300 (snd (tx_write softReset (fresh silent)))"
  have r: "chdbg_readAdvert ?b1 =
             Inr \<lparr>device = silent, txs = 2,
                  trace = [Write [5, 0, 1, 0, 1], Sleep 300, Read 4]\<rparr>"
    by (simp add: chdbg_readAdvert_def Let_def tx_read_def tx_write_def sleep_def fresh_def
          silent_def uint16le_def softReset_def)
  show ?thesis
    using chdbg_steps [of "[0, 0, 0, 0, 0, 0]"
        "\<lparr>device = silent, txs = 2, trace = [Write [5, 0, 1, 0, 1], Sleep 300, Read 4]\<rparr>"]
    by (simp add: chdbg_setup_def Let_def r chdbg_setFeature_def split: sum.splits)
qed

section \<open>Polling: header checks and the second read\<close>

lemma mask_clear:
  fixes len :: "16 word"
  assumes "len AND 0x8000 = 0"
  shows "len AND NOT 0x8000 = len" "len AND 0x7FFF = len"
proof -
  have full: "(0x8000 OR 0x7FFF :: 16 word) = - 1" by simp
  have "len AND 0x7FFF = (len AND 0x8000) OR (len AND 0x7FFF)"
    using assms by simp
  also have "\<dots> = len AND (0x8000 OR 0x7FFF)"
    by (simp only: bit.conj_disj_distrib)
  also have "\<dots> = len" by (simp only: full) simp
  finally show b: "len AND 0x7FFF = len" .
  have n: "NOT (0x8000 :: 16 word) = 0x7FFF" by simp
  show "len AND NOT 0x8000 = len" by (simp only: n b)
qed

lemma tx_read_ack:
  "device b (txs b) = Ack d \<Longrightarrow>
   tx_read n b = ((None, take n (d @ replicate n 0)),
                  b\<lparr>txs := Suc (txs b), trace := trace b @ [Read n]\<rparr>)"
  by (simp add: tx_read_def)

lemma tx_read_nack:
  "device b (txs b) = Nack \<Longrightarrow>
   tx_read n b = ((Some I2CError, replicate n 0),
                  b\<lparr>txs := Suc (txs b), trace := trace b @ [Read n]\<rparr>)"
  by (simp add: tx_read_def)

lemma comp_poll_reject:
  assumes "tx_read 4 (c_i2c st) = ((None, h), b1)"
    and "uint16le h AND 0x8000 \<noteq> 0 \<or> uint16le h = 0 \<or> 500 \<le> uint16le h"
  shows "comp_pollOnce st = Inr (nap 10 (st\<lparr>c_err := None, c_i2c := b1\<rparr>))"
proof -
  have m: "uint16le h AND 0x8000 = 0 \<Longrightarrow> uint16le h AND NOT 0x8000 = uint16le h"
    by (rule mask_clear)
  show ?thesis
    using assms(2) m
    by (auto simp: comp_pollOnce_def assms(1) Let_def not_less [symmetric])
qed

lemma hyb_poll_reject:
  assumes "tx_read 4 (h_i2c st) = ((None, h), b1)"
    and "uint16le h AND 0x8000 \<noteq> 0 \<or> uint16le h = 0 \<or> 500 \<le> uint16le h \<or> uint16le h \<le> 4"
  shows "hyb_pollOnce st = Inr (h_nap 10 (st\<lparr>h_err := None, h_i2c := b1\<rparr>))"
proof -
  have m: "uint16le h AND 0x8000 = 0 \<Longrightarrow> uint16le h AND 0x7FFF = uint16le h"
    by (rule mask_clear)
  show ?thesis
    using assms(2) m
    by (auto simp: hyb_pollOnce_def assms(1) Let_def not_less [symmetric])
qed

lemma index_Inr [simp]: "0 \<le> i \<Longrightarrow> i < int (length xs) \<Longrightarrow> index xs i = Inr (xs ! nat i)"
  by (simp add: index_def)

lemma comp_poll_accept:
  assumes "tx_read 4 (c_i2c st) = ((None, h), b1)"
    and "uint16le h AND 0x8000 = 0" "uint16le h \<noteq> 0" "uint16le h < 500"
  shows "uint16le h AND NOT 0x8000 = uint16le h"
    and "case comp_pollOnce st of
           Inl p \<Rightarrow> uint16le h \<le> 6
         | Inr st' \<Rightarrow>
             reads (trace (c_i2c st')) = reads (trace b1) @ [unat (uint16le h)] \<and>
             writes (trace (c_i2c st')) = writes (trace b1) \<and>
             c_seq st' = c_seq st"
proof -
  show m: "uint16le h AND NOT 0x8000 = uint16le h"
    using assms(2) by (rule mask_clear)
  have m': "uint16le h AND - 32769 = uint16le h" using m by simp
  have pos: "0 < uint16le h" using assms(3) by (simp add: word_greater_zero_iff)
  obtain e' pkt b2 where r: "tx_read (unat (uint16le h)) b1 = ((e', pkt), b2)"
    by (metis prod.collapse)
  have len: "length pkt = unat (uint16le h)"
    using tx_read_length [of "unat (uint16le h)" b1] by (simp add: r)
  have b2: "b2 = b1\<lparr>txs := Suc (txs b1), trace := trace b1 @ [Read (unat (uint16le h))]\<rparr>"
    using tx_read_bus [of "unat (uint16le h)" b1] by (simp add: r)
  have unfold: "comp_pollOnce st =
     (let st2 = st\<lparr>c_err := e', c_i2c := b2\<rparr>
      in if e' \<noteq> None then Inr (nap 10 st2)
         else (case index pkt 2 of
            Inl p \<Rightarrow> Inl p
          | Inr channel \<Rightarrow>
             (if channel = 3 \<or> channel = 4 \<or> channel = 5
              then (let st3 = st2\<lparr>c_reportCount := c_reportCount st2 + 1\<rparr>;
                        st4 = say (Report (c_reportCount st3) (uint16le h) channel) st3
                    in if 4 < uint16le h
                       then (case index pkt 4 of
                               Inl p \<Rightarrow> Inl p
                             | Inr sid \<Rightarrow>
                          (case index pkt 5 of
                               Inl p \<Rightarrow> Inl p
                             | Inr sq \<Rightarrow>
                          (case index pkt 6 of
                               Inl p \<Rightarrow> Inl p
                             | Inr status \<Rightarrow>
                                 Inr (nap 10 (say (ReportDetail sid sq status) st4)))))
                       else Inr (nap 10 st4))
              else if channel = 2
              then (if 4 < uint16le h
                    then (case index pkt 4 of
                            Inl p \<Rightarrow> Inl p
                          | Inr rid \<Rightarrow>
                              Inr (nap 10 (say (ControlResponse rid) st2)))
                    else Inr (nap 10 st2))
              else Inr (nap 10 st2))))"
    by (simp add: comp_pollOnce_def assms m' pos r Let_def)
  show "case comp_pollOnce st of
           Inl p \<Rightarrow> uint16le h \<le> 6
         | Inr st' \<Rightarrow>
             reads (trace (c_i2c st')) = reads (trace b1) @ [unat (uint16le h)] \<and>
             writes (trace (c_i2c st')) = writes (trace b1) \<and>
             c_seq st' = c_seq st"
  proof (cases "uint16le h \<le> 6")
    case True
    then show ?thesis
      by (simp add: unfold Let_def b2 nap_def say_def sleep_def println_def
            split: sum.split)
  next
    case False
    then have "6 < uint (uint16le h)" by (simp add: word_le_def)
    moreover have "int (length pkt) = uint (uint16le h)" by (simp add: len)
    ultimately have i: "index pkt 2 = Inr (pkt ! 2)" "index pkt 4 = Inr (pkt ! 4)"
        "index pkt 5 = Inr (pkt ! 5)" "index pkt 6 = Inr (pkt ! 6)"
      by (simp_all add: index_def)
    show ?thesis
      by (simp add: unfold i Let_def b2 nap_def say_def sleep_def println_def False)
  qed
qed

lemma slice_in:
  "0 \<le> lo \<Longrightarrow> lo \<le> hi \<Longrightarrow> hi \<le> int (length xs) \<Longrightarrow>
   slice xs lo hi = Inr (take (nat (hi - lo)) (drop (nat lo) xs))"
  by (simp add: slice_def)

lemma hyb_poll_accept:
  assumes "tx_read 4 (h_i2c st) = ((None, h), b1)"
    and "uint16le h AND 0x8000 = 0" "4 < uint16le h" "uint16le h < 500"
  shows "\<exists>st'. hyb_pollOnce st = Inr st' \<and>
           reads (trace (h_i2c st')) = reads (trace b1) @ [unat (uint16le h)]"
proof -
  have m: "uint16le h AND 0x7FFF = uint16le h"
    using assms(2) by (rule mask_clear)
  have nz: "uint16le h \<noteq> 0" using assms(3) by auto
  obtain e' pkt b2 where r: "tx_read (unat (uint16le h)) b1 = ((e', pkt), b2)"
    by (metis prod.collapse)
  have len: "int (length pkt) = uint (uint16le h)"
    using tx_read_length [of "unat (uint16le h)" b1] by (simp add: r)
  have b2: "b2 = b1\<lparr>txs := Suc (txs b1), trace := trace b1 @ [Read (unat (uint16le h))]\<rparr>"
    using tx_read_bus [of "unat (uint16le h)" b1] by (simp add: r)
  have gt: "4 < uint (uint16le h)" using assms(3) by (simp add: word_less_def)
  have i: "index pkt 2 = Inr (pkt ! 2)"
    using gt len by (simp add: index_def)
  have sl: "slice pkt 4 (min (uint (uint16le h)) 12)
              = Inr (take (nat (min (uint (uint16le h)) 12 - 4)) (drop 4 pkt))"
    using gt len by (simp add: slice_def)
  show ?thesis
    by (simp add: hyb_pollOnce_def assms m nz r Let_def i sl b2 h_nap_def h_say_def
          sleep_def println_def)
qed

lemma comp_poll_report:
  assumes "tx_read 4 (c_i2c st) = ((None, h), b1)"
    and "uint16le h AND 0x8000 = 0" "6 < uint16le h" "uint16le h < 500"
    and "tx_read (unat (uint16le h)) b1 = ((None, pkt), b2)"
    and "pkt ! 2 = 3 \<or> pkt ! 2 = 4 \<or> pkt ! 2 = 5"
  shows "comp_pollOnce st =
           Inr (nap 10 (say (ReportDetail (pkt ! 4) (pkt ! 5) (pkt ! 6))
                  (say (Report (c_reportCount st + 1) (uint16le h) (pkt ! 2))
                     (st\<lparr>c_err := None, c_i2c := b2,
                          c_reportCount := c_reportCount st + 1\<rparr>))))"
proof -
  have m': "uint16le h AND - 32769 = uint16le h"
    using mask_clear(1) [OF assms(2)] by simp
  have nz: "uint16le h \<noteq> 0" "4 < uint16le h" "0 < uint16le h"
    using assms(3) by (auto simp: word_less_nat_alt)
  have "6 < uint (uint16le h)" using assms(3) by (simp add: word_less_def)
  moreover have "int (length pkt) = uint (uint16le h)"
    using tx_read_length [of "unat (uint16le h)" b1] by (simp add: assms(5))
  ultimately have i: "index pkt 2 = Inr (pkt ! 2)" "index pkt 4 = Inr (pkt ! 4)"
      "index pkt 5 = Inr (pkt ! 5)" "index pkt 6 = Inr (pkt ! 6)"
    by (simp_all add: index_def)
  show ?thesis
    using assms(6)
    by (simp add: comp_pollOnce_def assms(1,2,4,5) m' nz i Let_def)
qed

lemma i2c_attempt_reads:
  assumes "tx_read 4 b = ((None, h), b1)"
    and "4 < uint16le h" "uint16le h < 1000"
  shows "\<exists>b'. i2c_attempt b = Inr b' \<and>
           reads (trace b') = reads (trace b1) @ [unat (uint16le h) - 4]"
proof -
  have pos: "0 < uint16le h" using assms(2) by (auto simp: word_less_nat_alt)
  have ge: "4 \<le> uint16le h" using assms(2) by auto
  have u: "unat (uint16le h - 4) = unat (uint16le h) - 4"
    using ge by (simp add: unat_sub)
  have "4 \<le> uint (uint16le h)" using ge by (simp add: word_le_def)
  moreover have "4 \<le> unat (uint16le h)" using ge by (simp add: word_le_nat_alt)
  ultimately have sl: "slice (replicate (unat (uint16le h)) (0 :: byte)) 0 4 = Inr (replicate 4 0)"
    by (simp add: slice_def min_def)
  show ?thesis
    by (simp add: i2c_attempt_def assms pos Let_def sl u tx_read_bus split_beta
          sleep_def println_def)
qed

lemma sf_pollOnce_reads:
  assumes "tx_read 4 b = ((None, h), b1)"
    and "uint16le h AND 0x8000 = 0" "4 < uint16le h" "uint16le h < 1000"
  shows "\<exists>b'. sf_pollOnce b = Inr b' \<and>
           reads (trace b') = reads (trace b1) @ [unat (uint16le h) - 4]"
proof -
  have pos: "0 < uint16le h" using assms(3) by (auto simp: word_less_nat_alt)
  have ge: "4 \<le> uint16le h" using assms(3) by auto
  have u: "unat (uint16le h - 4) = unat (uint16le h) - 4"
    using ge by (simp add: unat_sub)
  have "4 < unat (uint16le h)" using assms(3) by (simp add: word_less_nat_alt)
  moreover have "4 < uint (uint16le h)" using assms(3) by (simp add: word_less_def)
  ultimately have "0 < int (length (snd (fst (tx_read (unat (uint16le h) - 4) b1))))"
    by (simp add: tx_read_length)
  then have i: "index (snd (fst (tx_read (unat (uint16le h) - 4) b1))) 0
                  = Inr (snd (fst (tx_read (unat (uint16le h) - 4) b1)) ! 0)"
    by (simp add: index_def)
  show ?thesis
    by (simp add: sf_pollOnce_def assms pos Let_def u i tx_read_bus split_beta
          sleep_def println_def)
qed

text \<open>
  C3.  Take a poll whose 4-byte header read succeeded with bytes \<open>h\<close>, and let the
  length be the little-endian value of its first two bytes.  If bit 15 of the length is
  set, or the length is zero, or it is 500 or more (the code's cap is \<open>length < 500\<close>),
  then the iteration of the comprehensive test and that of the hybrid test end after the
  header read and the 10 ms sleep: no second read, no report counted or printed, and
  the other locals, the six sequence counters among them, as they were.  Otherwise
  masking changes nothing (bit 15 is clear), and the second read asks for \<open>length\<close>
  bytes: in the comprehensive test always (the iteration then either completes with the
  counters unchanged or, for a length of at most 6, stops on an index out of range), in
  the hybrid test when the length is above 4.
\<close>

theorem poll_discards_bad_headers:
  assumes "tx_read 4 (c_i2c st) = ((None, h), b1)"
    and "tx_read 4 (h_i2c hst) = ((None, h), hb1)"
  shows "(uint16le h AND 0x8000 \<noteq> 0 \<or> uint16le h = 0 \<or> 500 \<le> uint16le h \<longrightarrow>
            comp_pollOnce st = Inr (nap 10 (st\<lparr>c_err := None, c_i2c := b1\<rparr>)) \<and>
            trace (c_i2c (nap 10 (st\<lparr>c_err := None, c_i2c := b1\<rparr>)))
              = trace (c_i2c st) @ [Read 4, Sleep 10] \<and>
            hyb_pollOnce hst = Inr (h_nap 10 (hst\<lparr>h_err := None, h_i2c := hb1\<rparr>)) \<and>
            trace (h_i2c (h_nap 10 (hst\<lparr>h_err := None, h_i2c := hb1\<rparr>)))
              = trace (h_i2c hst) @ [Read 4, Sleep 10])
       \<and> (\<not> (uint16le h AND 0x8000 \<noteq> 0 \<or> uint16le h = 0 \<or> 500 \<le> uint16le h) \<longrightarrow>
            uint16le h AND NOT 0x8000 = uint16le h \<and>
            uint16le h AND 0x7FFF = uint16le h \<and>
            (case comp_pollOnce st of
               Inl p \<Rightarrow> uint16le h \<le> 6
             | Inr st' \<Rightarrow>
                 reads (trace (c_i2c st')) = reads (trace (c_i2c st)) @ [4, unat (uint16le h)] \<and>
                 c_seq st' = c_seq st) \<and>
            (4 < uint16le h \<longrightarrow>
               (\<exists>hst'. hyb_pollOnce hst = Inr hst' \<and>
                  reads (trace (h_i2c hst')) = reads (trace (h_i2c hst)) @ [4, unat (uint16le h)])))"
proof -
  have b1: "b1 = (c_i2c st)\<lparr>txs := Suc (txs (c_i2c st)), trace := trace (c_i2c st) @ [Read 4]\<rparr>"
    using tx_read_bus [of 4 "c_i2c st"] by (simp add: assms(1))
  have hb1: "hb1 = (h_i2c hst)\<lparr>txs := Suc (txs (h_i2c hst)), trace := trace (h_i2c hst) @ [Read 4]\<rparr>"
    using tx_read_bus [of 4 "h_i2c hst"] by (simp add: assms(2))
  show ?thesis
  proof (intro conjI impI)
    assume bad: "uint16le h AND 0x8000 \<noteq> 0 \<or> uint16le h = 0 \<or> 500 \<le> uint16le h"
    show "comp_pollOnce st = Inr (nap 10 (st\<lparr>c_err := None, c_i2c := b1\<rparr>))"
      by (rule comp_poll_reject [OF assms(1) bad])
    show "trace (c_i2c (nap 10 (st\<lparr>c_err := None, c_i2c := b1\<rparr>)))
              = trace (c_i2c st) @ [Read 4, Sleep 10]"
      by (simp add: nap_def sleep_def b1)
    show "hyb_pollOnce hst = Inr (h_nap 10 (hst\<lparr>h_err := None, h_i2c := hb1\<rparr>))"
      using bad by (intro hyb_poll_reject [OF assms(2)]) blast
    show "trace (h_i2c (h_nap 10 (hst\<lparr>h_err := None, h_i2c := hb1\<rparr>)))
              = trace (h_i2c hst) @ [Read 4, Sleep 10]"
      by (simp add: h_nap_def sleep_def hb1)
  next
    assume ok: "\<not> (uint16le h AND 0x8000 \<noteq> 0 \<or> uint16le h = 0 \<or> 500 \<le> uint16le h)"
    then have c: "uint16le h AND 0x8000 = 0" "uint16le h \<noteq> 0" "uint16le h < 500"
      by (simp_all add: not_le)
    show "uint16le h AND NOT 0x8000 = uint16le h" by (rule mask_clear(1) [OF c(1)])
    show "uint16le h AND 0x7FFF = uint16le h" by (rule mask_clear(2) [OF c(1)])
    show "case comp_pollOnce st of
               Inl p \<Rightarrow> uint16le h \<le> 6
             | Inr st' \<Rightarrow>
                 reads (trace (c_i2c st')) = reads (trace (c_i2c st)) @ [4, unat (uint16le h)] \<and>
                 c_seq st' = c_seq st"
      using comp_poll_accept(2) [OF assms(1) c]
      by (simp add: b1 split: sum.splits)
    show "\<exists>hst'. hyb_pollOnce hst = Inr hst' \<and>
             reads (trace (h_i2c hst')) = reads (trace (h_i2c hst)) @ [4, unat (uint16le h)]"
      if "4 < uint16le h"
      using hyb_poll_accept [OF assms(2) c(1) that c(3)] by (simp add: hb1)
  qed
qed

text \<open>Two headers used below: FF FF 03 00 (continuation bit) and 0A 00 03 00 (a 10-byte
  packet on channel 3).\<close>

lemma uint16le_FFFF: "uint16le [0xFF, 0xFF, 3, 0] = 0xFFFF"
  by (simp add: uint16le_def)

lemma uint16le_10: "uint16le [0x0A, 0, 3, 0] = 10"
  by (simp add: uint16le_def)

text \<open>A device that announces a 10-byte packet on channel 3 and, as the sensor does,
  starts every read at the header again.\<close>

lemma comp_pollOnce_echo:
  "comp_pollOnce (comp_init (fresh (script
       [Ack [0x0A, 0, 3, 0], Ack [0x0A, 0, 3, 0, 0xAA, 0xBB, 0xCC, 0xDD, 0xEE, 0xFF]]))) =
     Inr \<lparr>c_seq = [0, 0, 0, 0, 0, 0], c_err = None, c_reportCount = 1,
          c_i2c = \<lparr>device = script
                     [Ack [0x0A, 0, 3, 0], Ack [0x0A, 0, 3, 0, 0xAA, 0xBB, 0xCC, 0xDD, 0xEE, 0xFF]],
                   txs = 2,
                   trace = [Read 4, Read 10, Out (Report 1 10 3),
                            Out (ReportDetail 0xAA 0xBB 0xCC), Sleep 10]\<rparr>\<rparr>"
  by (simp add: comp_pollOnce_def comp_init_def fresh_def script_def tx_read_def Let_def
        uint16le_10 index_def nap_def say_def sleep_def println_def)

text \<open>The theorem at the specification's continuation header FF FF 03 00, and at the
  10-byte packet for the other branch.\<close>

theorem poll_discards_bad_headers_witness:
  "comp_pollOnce (comp_init (fresh (script [Ack [0xFF, 0xFF, 3, 0]]))) =
     Inr \<lparr>c_seq = [0, 0, 0, 0, 0, 0], c_err = None, c_reportCount = 0,
          c_i2c = \<lparr>device = script [Ack [0xFF, 0xFF, 3, 0]], txs = 1,
                   trace = [Read 4, Sleep 10]\<rparr>\<rparr>
   \<and> hyb_pollOnce (hyb_init (fresh (script [Ack [0xFF, 0xFF, 3, 0]]))) =
     Inr \<lparr>h_err = None, h_reportCount = 0, channelCounts = Map.empty,
          h_i2c = \<lparr>device = script [Ack [0xFF, 0xFF, 3, 0]], txs = 1,
                   trace = [Read 4, Sleep 10]\<rparr>\<rparr>
   \<and> reads (trace (c_i2c (projr (comp_pollOnce (comp_init (fresh (script
       [Ack [0x0A, 0, 3, 0], Ack [0x0A, 0, 3, 0, 0xAA, 0xBB, 0xCC, 0xDD, 0xEE, 0xFF]]))))))) =
     [4, 10]"
proof -
  let ?d = "script [Ack [0xFF, 0xFF, 3, 0]]"
  let ?b1 = "\<lparr>device = ?d, txs = 1, trace = [Read 4]\<rparr>"
  have c: "tx_read 4 (c_i2c (comp_init (fresh ?d))) = ((None, [0xFF, 0xFF, 3, 0]), ?b1)"
    by (simp add: tx_read_def comp_init_def fresh_def script_def)
  have h: "tx_read 4 (h_i2c (hyb_init (fresh ?d))) = ((None, [0xFF, 0xFF, 3, 0]), ?b1)"
    by (simp add: tx_read_def hyb_init_def fresh_def script_def)
  let ?e = "script [Ack [0x0A, 0, 3, 0], Ack [0x0A, 0, 3, 0, 0xAA, 0xBB, 0xCC, 0xDD, 0xEE, 0xFF]]"
  let ?b2 = "\<lparr>device = ?e, txs = 1, trace = [Read 4]\<rparr>"
  have c2: "tx_read 4 (c_i2c (comp_init (fresh ?e))) = ((None, [0x0A, 0, 3, 0]), ?b2)"
    by (simp add: tx_read_def comp_init_def fresh_def script_def)
  have h2: "tx_read 4 (h_i2c (hyb_init (fresh ?e))) = ((None, [0x0A, 0, 3, 0]), ?b2)"
    by (simp add: tx_read_def hyb_init_def fresh_def script_def)
  have bad: "comp_pollOnce (comp_init (fresh ?d)) =
               Inr (nap 10 (comp_init (fresh ?d)\<lparr>c_err := None, c_i2c := ?b1\<rparr>))"
       "hyb_pollOnce (hyb_init (fresh ?d)) =
               Inr (h_nap 10 (hyb_init (fresh ?d)\<lparr>h_err := None, h_i2c := ?b1\<rparr>))"
    using poll_discards_bad_headers [OF c h] by (simp_all add: uint16le_FFFF)
  have good: "reads (trace (c_i2c (projr (comp_pollOnce (comp_init (fresh ?e)))))) = [4, 10]"
    using poll_discards_bad_headers [OF c2 h2]
    by (simp add: comp_pollOnce_echo)
  show ?thesis
    using bad good
    by (simp add: nap_def h_nap_def sleep_def comp_init_def hyb_init_def)
qed

text \<open>
  C5.  In the polling loop of the comprehensive test (and of the hybrid test) reading is
  the two-step transaction of the claim: \<open>comp_poll_accept\<close> and \<open>comp_poll_report\<close> show
  the second read of \<open>length\<close> bytes, the channel taken from its byte 2 and the report
  bytes from its bytes 4, 5 and 6.  The minimal I2C test and the SetFeature test ask for
  \<open>length - 4\<close> bytes in the second read (\<open>i2c_attempt_reads\<close>, \<open>sf_pollOnce_reads\<close>) and
  take its byte 0 as the first payload byte.  On the 10-byte packet above the minimal
  test therefore reads 6 bytes and prints as the full packet the header twice and two
  payload bytes.
\<close>

theorem minimal_test_second_read:
  "i2c_attempt (fresh (script
       [Ack [0x0A, 0, 3, 0], Ack [0x0A, 0, 3, 0, 0xAA, 0xBB, 0xCC, 0xDD, 0xEE, 0xFF]])) =
     Inr \<lparr>device = script
             [Ack [0x0A, 0, 3, 0], Ack [0x0A, 0, 3, 0, 0xAA, 0xBB, 0xCC, 0xDD, 0xEE, 0xFF]],
          txs = 2,
          trace = [Read 4, Read 6,
                   Out (FullPacket [0x0A, 0, 3, 0, 0x0A, 0, 3, 0, 0xAA, 0xBB]), Sleep 100]\<rparr>"
  by (simp add: i2c_attempt_def fresh_def script_def tx_read_def Let_def uint16le_10
        slice_def copy_at_def sleep_def println_def)

text \<open>The SetFeature test on the same device prints the length byte 0A as the first
  payload byte.\<close>

lemma sf_pollOnce_echo:
  "sf_pollOnce (fresh (script
       [Ack [0x0A, 0, 3, 0], Ack [0x0A, 0, 3, 0, 0xAA, 0xBB, 0xCC, 0xDD, 0xEE, 0xFF]])) =
     Inr \<lparr>device = script
             [Ack [0x0A, 0, 3, 0], Ack [0x0A, 0, 3, 0, 0xAA, 0xBB, 0xCC, 0xDD, 0xEE, 0xFF]],
          txs = 2,
          trace = [Read 4, Read 6, Out (PayloadByte 0x0A), Out SensorChannel, Sleep 100]\<rparr>"
  by (simp add: sf_pollOnce_def fresh_def script_def tx_read_def Let_def uint16le_10
        index_def sleep_def println_def)

section \<open>Advertisement parsing\<close>

lemma parse_loop_done:
  "\<not> i < int (length payload) - 2 \<Longrightarrow> parse_loop payload i out = Inr out"
  by (simp add: parse_loop.simps [of payload i])

lemma parse_loop_break:
  "0 \<le> i \<Longrightarrow> i < int (length payload) - 2 \<Longrightarrow>
   i + 2 + uint (payload ! nat (i + 1)) > int (length payload) \<Longrightarrow>
   parse_loop payload i out = Inr out"
  by (simp add: parse_loop.simps [of payload i] index_def)

lemma parse_loop_step:
  assumes "0 \<le> i" "i < int (length payload) - 2"
    and "i + 2 + uint (payload ! nat (i + 1)) \<le> int (length payload)"
  shows "parse_loop payload i out =
           parse_loop payload (i + 2 + uint (payload ! nat (i + 1)))
             (out @ spec_interpret (payload ! nat i)
                      (take (unat (payload ! nat (i + 1))) (drop (nat (i + 2)) payload)))"
proof -
  let ?len = "uint (payload ! nat (i + 1))"
  let ?val = "take (unat (payload ! nat (i + 1))) (drop (nat (i + 2)) payload)"
  have l0: "0 \<le> ?len" by simp
  have sl: "slice payload (i + 2) (i + 2 + ?len) = Inr ?val"
    using assms by (simp add: slice_def)
  have le: "nat (i + 2) + unat (payload ! nat (i + 1)) \<le> length payload"
    using assms(1,3) unfolding uint_nat by linarith
  then have lv': "length ?val = unat (payload ! nat (i + 1))" by simp
  have lv: "int (length ?val) = ?len" by (simp only: lv' uint_nat)
  have v0: "1 < ?len \<Longrightarrow> index ?val 0 = Inr (hd ?val)"
    using lv by (cases ?val) (auto simp: index_def)
  have v1: "1 < ?len \<Longrightarrow> slice ?val 1 (int (length ?val)) = Inr (tl ?val)"
    using lv by (cases ?val) (auto simp: slice_def)
  have v2: "1 < ?len \<longleftrightarrow> 1 < length ?val"
    using lv by linarith
  show ?thesis
    apply (subst parse_loop.simps)
    using assms sl v0 v1 v2
    apply (simp add: index_def Let_def spec_interpret_def)
    done
qed

lemma parse_loop_total:
  "0 \<le> i \<Longrightarrow> \<exists>r. parse_loop payload i out = Inr r"
proof (induction "nat (int (length payload) - i)" arbitrary: i out rule: less_induct)
  case less
  show ?case
  proof (cases "i < int (length payload) - 2")
    case False
    then show ?thesis by (simp add: parse_loop_done)
  next
    case True
    show ?thesis
    proof (cases "i + 2 + uint (payload ! nat (i + 1)) \<le> int (length payload)")
      case False
      then show ?thesis using less.prems True by (simp add: parse_loop_break)
    next
      case fits: True
      let ?i' = "i + 2 + uint (payload ! nat (i + 1))"
      have "0 \<le> uint (payload ! nat (i + 1))" by simp
      then have "nat (int (length payload) - ?i') < nat (int (length payload) - i)" "0 \<le> ?i'"
        using less.prems True by linarith+
      then have "\<exists>r. parse_loop payload ?i'
                   (out @ spec_interpret (payload ! nat i)
                      (take (unat (payload ! nat (i + 1))) (drop (nat (i + 2)) payload))) = Inr r"
        by (rule less.hyps)
      then show ?thesis
        by (simp only: parse_loop_step [OF less.prems True fits])
    qed
  qed
qed

lemma length_tlv_nonempty:
  "rs \<noteq> [] \<Longrightarrow> 2 \<le> length (tlv_encode rs)"
  by (cases rs) auto

text \<open>\<open>parseAdvertisement\<close> on an encoded sequence of records prints what the
  specification's reading of the records gives, provided every value fits its length
  byte and the last record has a value: the loop runs while \<open>i < len(payload) - 2\<close>, so a
  record made of the last two bytes is not visited.\<close>

lemma parse_loop_refines:
  assumes "\<forall>(t, v) \<in> set recs. length v < 256"
    and "recs \<noteq> [] \<longrightarrow> snd (last recs) \<noteq> []"
  shows "parse_loop (pre @ tlv_encode recs) (int (length pre)) out = Inr (out @ spec_walk recs)"
  using assms
proof (induction recs arbitrary: pre out)
  case Nil
  then show ?case by (simp add: parse_loop_done)
next
  case (Cons r rs)
  obtain t v where r: "r = (t, v)" by (cases r)
  let ?payload = "pre @ tlv_encode (r # rs)"
  let ?i = "int (length pre)"
  have v: "length v < 256" using Cons.prems(1) by (simp add: r)
  have lb: "unat (of_nat (length v) :: byte) = length v"
    using v by (simp add: unat_of_nat)
  have at0: "?payload ! nat ?i = t"
    by (simp add: r nth_append)
  have at1: "?payload ! nat (?i + 1) = of_nat (length v)"
    by (simp add: r nth_append nat_add_distrib)
  have rest: "1 \<le> length v + length (tlv_encode rs)"
  proof (cases "v = []")
    case True
    then have "rs \<noteq> []" using Cons.prems(2) by (auto simp: r)
    then show ?thesis using length_tlv_nonempty [of rs] by simp
  next
    case False
    then show ?thesis by (cases v) simp_all
  qed
  have c1: "?i < int (length ?payload) - 2" using rest by (simp add: r)
  have c2: "?i + 2 + uint (?payload ! nat (?i + 1)) \<le> int (length ?payload)"
    by (simp only: at1 uint_nat lb) (simp add: r)
  have val: "take (unat (?payload ! nat (?i + 1))) (drop (nat (?i + 2)) ?payload) = v"
    by (simp only: at1 lb) (simp add: r nat_add_distrib)
  have next_i: "?i + 2 + uint (?payload ! nat (?i + 1)) = int (length (pre @ t # of_nat (length v) # v))"
    by (simp only: at1 uint_nat lb) simp
  have split: "?payload = (pre @ t # of_nat (length v) # v) @ tlv_encode rs"
    by (simp add: r)
  have rs1: "\<forall>(t, v) \<in> set rs. length v < 256" using Cons.prems(1) by simp
  have rs2: "rs \<noteq> [] \<longrightarrow> snd (last rs) \<noteq> []" using Cons.prems(2) by auto
  have "parse_loop ?payload ?i out =
          parse_loop ?payload (int (length (pre @ t # of_nat (length v) # v)))
            (out @ spec_interpret t v)"
    using parse_loop_step [of ?i ?payload out, OF _ c1 c2]
    by (simp only: val at0 next_i)
  also have "\<dots> = Inr ((out @ spec_interpret t v) @ spec_walk rs)"
    by (simp only: split) (rule Cons.IH [OF rs1 rs2])
  finally show ?case by (simp add: r)
qed

lemma parseAdvertisement_refines:
  assumes "\<forall>(t, v) \<in> set recs. length v < 256"
    and "recs \<noteq> [] \<longrightarrow> snd (last recs) \<noteq> []"
  shows "parseAdvertisement (tlv_encode recs) = Inr (spec_walk recs)"
  using parse_loop_refines [OF assms, of "[]" "[]"] by (simp add: parseAdvertisement_def)

lemma parseAdvertisement_example:
  "parseAdvertisement [6, 5, 2, 0x63, 0x74, 0x72, 0x6C, 0x80, 3, 0x31, 0x2E, 0x30, 9, 1, 7] =
     Inr [ChannelLine 2 [0x63, 0x74, 0x72, 0x6C], VersionLine [0x31, 0x2E, 0x30]]"
  using parseAdvertisement_refines
          [of "[(6, [2, 0x63, 0x74, 0x72, 0x6C]), (0x80, [0x31, 0x2E, 0x30]), (9, [7])]"]
  by (simp add: spec_interpret_def)

lemma parseAdvertisement_drops_last_empty:
  "parseAdvertisement [0x80, 0] = Inr []"
  by (simp add: parseAdvertisement_def parse_loop_done)

text \<open>
  C10.  \<open>parseAdvertisement\<close> returns for every payload and never indexes or slices out
  of range: in the model every \<open>payload[i]\<close>, \<open>payload[i+1]\<close>, \<open>payload[i:i+length]\<close>,
  \<open>value[0]\<close> and \<open>value[1:]\<close> is a checked access, a failed check is the result
  \<open>Inl\<close>, and the result is always \<open>Inr\<close>; the loop is a total function.  A record
  whose declared length runs past the end of the payload ends the loop with what was
  printed so far.
\<close>

theorem parseAdvertisement_in_bounds:
  "(\<exists>out. parseAdvertisement payload = Inr out) \<and>
   (0 \<le> i \<and> i < int (length payload) - 2 \<and>
      int (length payload) < i + 2 + uint (payload ! nat (i + 1)) \<longrightarrow>
    parse_loop payload i out0 = Inr out0)"
proof (intro conjI impI)
  show "\<exists>out. parseAdvertisement payload = Inr out"
    unfolding parseAdvertisement_def by (rule parse_loop_total) simp
next
  assume "0 \<le> i \<and> i < int (length payload) - 2 \<and>
      int (length payload) < i + 2 + uint (payload ! nat (i + 1))"
  then show "parse_loop payload i out0 = Inr out0"
    by (intro parse_loop_break) simp_all
qed

text \<open>A record that declares five value bytes where one is left.\<close>

theorem parseAdvertisement_in_bounds_witness:
  "(0 :: int) \<le> 0 \<and> 0 < int (length [6, 5, 2 :: byte]) - 2 \<and>
   int (length [6, 5, 2 :: byte]) < 0 + 2 + uint ([6, 5, 2 :: byte] ! nat (0 + 1)) \<and>
   parseAdvertisement [6, 5, 2] = Inr []"
  using parseAdvertisement_in_bounds [of "[6, 5, 2]" 0 "[]"]
  by (simp add: parseAdvertisement_def)

text \<open>
  C7.  \<open>parseAdvertisement\<close> reads the tags as the claim says
  (\<open>parseAdvertisement_refines\<close>).  The tag loop of the channel debug program does not:
  it takes tag 4 with a one-byte value as the normal channel and tag 8 as its name, and
  skips tags 6, 7 and 0x80 like any other.  On an advertisement whose only record is
  tag 6 with the value 02 "ctrl" it prints nothing.
\<close>

theorem channel_debug_skips_tag_6:
  "chdbg_readAdvert (fresh (script
       [Ack [0x0C, 0, 0, 0], Ack [0x0C, 0, 0, 0, 0, 6, 5, 2, 0x63, 0x74, 0x72, 0x6C]])) =
     Inr \<lparr>device = script
             [Ack [0x0C, 0, 0, 0], Ack [0x0C, 0, 0, 0, 0, 6, 5, 2, 0x63, 0x74, 0x72, 0x6C]],
          txs = 2, trace = [Read 4, Read 12]\<rparr>"
  by (simp add: chdbg_readAdvert_def fresh_def script_def tx_read_def Let_def uint16le_def
        index_def slice_def chdbg_parse.simps)

text \<open>What the channel debug loop does recognise.\<close>

lemma channel_debug_tags_4_and_8:
  "chdbg_readAdvert (fresh (script
       [Ack [0x0E, 0, 0, 0], Ack [0x0E, 0, 0, 0, 0, 4, 1, 2, 8, 4, 0x63, 0x74, 0x72, 0x6C]])) =
     Inr \<lparr>device = script
             [Ack [0x0E, 0, 0, 0], Ack [0x0E, 0, 0, 0, 0, 4, 1, 2, 8, 4, 0x63, 0x74, 0x72, 0x6C]],
          txs = 2,
          trace = [Read 4, Read 14, Out (NormalChannel 2),
                   Out (ChannelLine 2 [0x63, 0x74, 0x72, 0x6C])]\<rparr>"
  by (simp add: chdbg_readAdvert_def fresh_def script_def tx_read_def Let_def uint16le_def
        index_def slice_def chdbg_parse.simps)

section \<open>The three copies of quaternionToEuler\<close>

text \<open>
  C9.  The three copies of \<open>quaternionToEuler\<close> return the same triple on every
  quaternion, whatever the floating-point operations compute, and the pitch they return
  is the clamped value (\<^verbatim>\<open>Copysign(Pi/2, sinp)\<close>, rounded to single precision) exactly when
  \<^verbatim>\<open>Abs(float64(sinp)) >= 1\<close> holds, where \<^verbatim>\<open>sinp = 2*(q.Real*q.J - q.K*q.I)\<close> in
  single precision, and the arcsine of \<^verbatim>\<open>sinp\<close> otherwise.
\<close>

theorem quaternionToEuler_copies_agree:
  "quaternionToEuler_gopherclaw f q = quaternionToEuler_neopixel f q
   \<and> quaternionToEuler_neopixel f q = quaternionToEuler_euler f q
   \<and> fst (snd (quaternionToEuler_euler f q)) =
       (if ge64 f (Abs f (float64 f (sinp_of f q))) (const64_1 f)
        then float32 f (Copysign f (const64_half_pi f) (float64 f (sinp_of f q)))
        else float32 f (Asin f (float64 f (sinp_of f q))))"
  by (simp add: quaternionToEuler_gopherclaw_def quaternionToEuler_neopixel_def
        quaternionToEuler_euler_def sinp_of_def Let_def)

end
